theory Spec2Isabelle
  imports Main "HOL-Library.Word"
begin

unbundle bit_operations_syntax

section \<open>The schema tree (tree\_schema.h)\<close>

text \<open>
  Strings of the schema and of the XML input live in the dictionary, which stores each
  string once: two dictionary pointers are the same pointer exactly when the strings are
  equal. A dictionary string is therefore represented by its content, and the pointer
  comparison \<^verbatim>\<open>a == b\<close> of two dictionary strings by equality.
\<close>

text \<open>
  \<^verbatim>\<open>struct lys_module\<close> and \<^verbatim>\<open>struct lys_submodule\<close>. The two structures agree in
  every member but the last: \<^verbatim>\<open>ns\<close> in a module, \<^verbatim>\<open>belongsto\<close> in a submodule, and a
  submodule is passed around cast to \<^verbatim>\<open>struct lys_module *\<close>. The bit \<^verbatim>\<open>type\<close> tells them
  apart.
\<close>

datatype lys_module =
    Lys_module (mod_name: string) (mod_ns: string)
  | Lys_submodule (mod_name: string) (mod_belongsto: lys_module)

fun mod_type :: "lys_module \<Rightarrow> bool" where
  "mod_type (Lys_module _ _) = False"
| "mod_type (Lys_submodule _ _) = True"

text \<open>
  The member \<^verbatim>\<open>module->ns\<close> as a dictionary string. In a submodule the member at this
  place is \<^verbatim>\<open>belongsto\<close>, the address of a module structure, which is no dictionary
  string: the comparison of it with one is false.
\<close>

fun module_ns :: "lys_module \<Rightarrow> string option" where
  "module_ns (Lys_module _ n) = Some n"
| "module_ns (Lys_submodule _ _) = None"

datatype LYS_NODE =
    LYS_UNKNOWN | LYS_AUGMENT | LYS_CONTAINER | LYS_CHOICE | LYS_LEAF | LYS_LEAFLIST
  | LYS_LIST | LYS_ANYXML | LYS_GROUPING | LYS_CASE | LYS_INPUT | LYS_OUTPUT
  | LYS_NOTIF | LYS_RPC | LYS_USES

fun nodetype_bits :: "LYS_NODE \<Rightarrow> 32 word" where
  "nodetype_bits LYS_UNKNOWN = 0x0000"
| "nodetype_bits LYS_AUGMENT = 0x0001"
| "nodetype_bits LYS_CONTAINER = 0x0002"
| "nodetype_bits LYS_CHOICE = 0x0004"
| "nodetype_bits LYS_LEAF = 0x0008"
| "nodetype_bits LYS_LEAFLIST = 0x0010"
| "nodetype_bits LYS_LIST = 0x0020"
| "nodetype_bits LYS_ANYXML = 0x0040"
| "nodetype_bits LYS_GROUPING = 0x0080"
| "nodetype_bits LYS_CASE = 0x0100"
| "nodetype_bits LYS_INPUT = 0x0200"
| "nodetype_bits LYS_OUTPUT = 0x0400"
| "nodetype_bits LYS_NOTIF = 0x0800"
| "nodetype_bits LYS_RPC = 0x1000"
| "nodetype_bits LYS_USES = 0x2000"

datatype LY_DATA_TYPE =
    LY_TYPE_DER | LY_TYPE_BINARY | LY_TYPE_BITS | LY_TYPE_BOOL | LY_TYPE_DEC64
  | LY_TYPE_EMPTY | LY_TYPE_ENUM | LY_TYPE_IDENT | LY_TYPE_INST | LY_TYPE_LEAFREF
  | LY_TYPE_STRING | LY_TYPE_UNION | LY_TYPE_INT8 | LY_TYPE_UINT8 | LY_TYPE_INT16
  | LY_TYPE_UINT16 | LY_TYPE_INT32 | LY_TYPE_UINT32 | LY_TYPE_INT64 | LY_TYPE_UINT64

text \<open>The numbering of the enumeration; \<^verbatim>\<open>value_type\<close> of a leaf stores a number.\<close>

fun type_code :: "LY_DATA_TYPE \<Rightarrow> 32 word" where
  "type_code LY_TYPE_DER = 0"
| "type_code LY_TYPE_BINARY = 1"
| "type_code LY_TYPE_BITS = 2"
| "type_code LY_TYPE_BOOL = 3"
| "type_code LY_TYPE_DEC64 = 4"
| "type_code LY_TYPE_EMPTY = 5"
| "type_code LY_TYPE_ENUM = 6"
| "type_code LY_TYPE_IDENT = 7"
| "type_code LY_TYPE_INST = 8"
| "type_code LY_TYPE_LEAFREF = 9"
| "type_code LY_TYPE_STRING = 10"
| "type_code LY_TYPE_UNION = 11"
| "type_code LY_TYPE_INT8 = 12"
| "type_code LY_TYPE_UINT8 = 13"
| "type_code LY_TYPE_INT16 = 14"
| "type_code LY_TYPE_UINT16 = 15"
| "type_code LY_TYPE_INT32 = 16"
| "type_code LY_TYPE_UINT32 = 17"
| "type_code LY_TYPE_INT64 = 18"
| "type_code LY_TYPE_UINT64 = 19"

definition LY_DATA_TYPE_MASK :: "32 word" where
  "LY_DATA_TYPE_MASK = 0x3f"

text \<open>\<^verbatim>\<open>struct lys_type\<close>: the base and, for a union, the array \<^verbatim>\<open>info.uni.types\<close>.\<close>

datatype lys_type = Lys_type (type_base: LY_DATA_TYPE) (uni_types: "lys_type list")

definition LYS_USERORDERED :: "8 word" where
  "LYS_USERORDERED = 0x80"

text \<open>
  \<^verbatim>\<open>struct lys_node\<close>. The sibling list \<^verbatim>\<open>child, child->next, ...\<close> is the list
  \<open>schild\<close>. The member \<^verbatim>\<open>type\<close> exists in \<^verbatim>\<open>struct lys_node_leaf\<close> and
  \<^verbatim>\<open>struct lys_node_leaflist\<close> only and is read for leaves and leaf-lists only.
\<close>

datatype lys_node =
  Lys_node (sname: string) (sflags: "8 word") (smodule: lys_module) (snodetype: LYS_NODE)
    (schild: "lys_node list") (stype: lys_type)

section \<open>The schema resolver (parser\_xml.c)\<close>

text \<open>
  \<^verbatim>\<open>xml_data_search_schemanode(xml, start)\<close>. The element enters through \<^verbatim>\<open>xml->name\<close>
  and \<^verbatim>\<open>xml->ns->value\<close> only, the first two arguments here; its one caller has checked
  \<^verbatim>\<open>xml->ns\<close> and \<^verbatim>\<open>xml->ns->value\<close> before.
\<close>

fun xml_data_search_schemanode :: "string \<Rightarrow> string \<Rightarrow> lys_node list \<Rightarrow> lys_node option" where
  "xml_data_search_schemanode xname xns [] = None"
| "xml_data_search_schemanode xname xns (Lys_node n f m nt ch ty # rest) =
     (if nt = LYS_GROUPING then xml_data_search_schemanode xname xns rest
      else if nodetype_bits nt AND
              (nodetype_bits LYS_CHOICE OR nodetype_bits LYS_CASE OR nodetype_bits LYS_USES
               OR nodetype_bits LYS_INPUT OR nodetype_bits LYS_OUTPUT) \<noteq> 0
      then (case xml_data_search_schemanode xname xns ch of
              Some aux \<Rightarrow> Some aux
            | None \<Rightarrow> xml_data_search_schemanode xname xns rest)
      else if n = xname
      then (if module_ns m = Some xns then Some (Lys_node n f m nt ch ty)
            else xml_data_search_schemanode xname xns rest)
      else xml_data_search_schemanode xname xns rest)"

text \<open>
  The resolver in the words of the specification: the transparent node types, the
  sequence of concrete nodes that a sibling list offers (groupings left out, transparent
  nodes replaced by what their children offer), and the acceptance test.
\<close>

definition transparent :: "LYS_NODE \<Rightarrow> bool" where
  "transparent nt = (nt = LYS_CHOICE \<or> nt = LYS_CASE \<or> nt = LYS_USES \<or> nt = LYS_INPUT \<or> nt = LYS_OUTPUT)"



section \<open>The XML input and the data tree\<close>

text \<open>
  \<^verbatim>\<open>struct lyxml_ns\<close>, \<^verbatim>\<open>struct lyxml_attr\<close> and \<^verbatim>\<open>struct lyxml_elem\<close>, by the members
  the parser reads. A null pointer is \<open>None\<close>. The namespace of an attribute is kept by
  its value, \<^verbatim>\<open>attr->ns->value\<close>, and is \<open>None\<close> where \<^verbatim>\<open>attr->ns\<close> is null (the
  parser reads the value of an attribute's namespace without a check).
\<close>

record lyxml_ns =
  ns_prefix :: "string option"
  ns_value :: "string option"

datatype LYXML_ATTR_TYPE = LYXML_ATTR_STD | LYXML_ATTR_NS

record lyxml_attr =
  attr_type :: LYXML_ATTR_TYPE
  attr_ns :: "string option"
  attr_name :: string
  attr_value :: string

datatype lyxml_elem =
  Lyxml_elem (xml_name: string) (xml_ns: "lyxml_ns option") (xml_content: "string option")
    (xml_attr: "lyxml_attr list") (xml_child: "lyxml_elem list")

text \<open>\<^verbatim>\<open>struct lyd_attr\<close>; the list \<^verbatim>\<open>attr, attr->next, ...\<close> of a node is a list.\<close>

record lyd_attr =
  dattr_module :: lys_module
  dattr_name :: string
  dattr_value :: string

text \<open>
  The data tree (tree\_data.h). \<^verbatim>\<open>struct lyd_node\<close>, \<^verbatim>\<open>struct lyd_node_leaf_list\<close> and
  \<^verbatim>\<open>struct lyd_node_anyxml\<close> share their first five members; the sixth is \<^verbatim>\<open>child\<close>,
  \<^verbatim>\<open>value_str\<close> (followed by \<^verbatim>\<open>value\<close> and \<^verbatim>\<open>value_type\<close>) or the anyxml \<^verbatim>\<open>value\<close>.
  A sibling list is a list, the first sibling first; the members \<^verbatim>\<open>next\<close>, \<^verbatim>\<open>prev\<close> and
  \<^verbatim>\<open>parent\<close> are the position in it (the pointers themselves are the subject of the
  section on the link-in below).

  \<^verbatim>\<open>lyd_val\<close> is a union; the number in \<^verbatim>\<open>value_type\<close> says which member is meant. Here
  the members that point into the data tree are kept apart, the integer members (bool,
  dec64, int8 to uint64) are their 64-bit pattern, and the members that point to a string
  or into the schema (binary, string, enm, ident, bit) are a string. \<open>Val_zero\<close> is the
  union after \<^verbatim>\<open>calloc\<close>. A leafref target is held as a copy of the target leaf.
\<close>

datatype lyd_node =
    Lyd_node (schema: lys_node) (attr: "lyd_attr list") (child: "lyd_node list")
  | Lyd_node_leaf_list (schema: lys_node) (attr: "lyd_attr list") (value_str: "string option")
      (val: lyd_val) (value_type: "32 word")
  | Lyd_node_anyxml (schema: lys_node) (attr: "lyd_attr list") (anyxml_value: "lyxml_elem list")
and lyd_val =
    Val_zero
  | Val_leafref lyd_node
  | Val_instance lyd_node
  | Val_int "64 word"
  | Val_str string

section \<open>Parser state and the collaborators outside the sources\<close>

text \<open>
  The error codes of the library (\<^verbatim>\<open>ly_errno\<close>; libyang.h is not among the sources, these
  are the codes parser\_xml.c stores, \<open>LY_SUCCESS\<close> being 0) and the validation codes of
  \<^verbatim>\<open>enum LY_ERR\<close> in common.h that parser\_xml.c logs.
\<close>

datatype LY_ERRNO = LY_SUCCESS | LY_EMEM | LY_EINVAL | LY_EINT | LY_EVALID

datatype LY_VCODE =
    LYE_XML_MISS | LYE_INARG | LYE_TOOMANY | LYE_INELEM | LYE_INVAL | LYE_INATTR | LYE_MISSATTR

text \<open>
  The parser options. The bit values of \<^verbatim>\<open>LYD_OPT_*\<close> are declared in libyang.h, which is
  not among the sources; an option word is the set of the flags in it, \<^verbatim>\<open>options & F\<close> is
  membership and \<^verbatim>\<open>options = 0\<close> the empty set.
\<close>

datatype LYD_OPT =
    LYD_OPT_STRICT | LYD_OPT_DESTRUCT | LYD_OPT_FILTER | LYD_OPT_EDIT | LYD_OPT_GET
  | LYD_OPT_GETCONFIG

text \<open>
  What a parse reads and writes besides its result: the thread-local \<^verbatim>\<open>ly_errno\<close>, the
  validation codes logged through \<^verbatim>\<open>LOGVAL\<close>, the nodes handed to \<^verbatim>\<open>lyd_free\<close>, and the
  deferral records \<^verbatim>\<open>unres\<close>, whose structure is not among the sources.
\<close>

record 'u pstate =
  ly_errno :: LY_ERRNO
  vlog :: "LY_VCODE list"
  freed :: "lyd_node list"
  unres :: 'u

text \<open>\<^verbatim>\<open>LOGERR(errno, ...)\<close> of common.h: \<^verbatim>\<open>ly_errno = errno\<close>, then a log message.\<close>

definition LOGERR :: "LY_ERRNO \<Rightarrow> 'u pstate \<Rightarrow> 'u pstate" where
  "LOGERR e s = s\<lparr>ly_errno := e\<rparr>"

text \<open>
  Modelled from the spec: \<^verbatim>\<open>LOGVAL\<close> is \<^verbatim>\<open>ly_vlog\<close>, which is not among the sources.
  ``Every failure sets a thread-local error code and logs a message'': the validation
  code is logged and \<^verbatim>\<open>ly_errno\<close> becomes the validation error.
\<close>

definition LOGVAL :: "LY_VCODE \<Rightarrow> 'u pstate \<Rightarrow> 'u pstate" where
  "LOGVAL c s = s\<lparr>ly_errno := LY_EVALID, vlog := vlog s @ [c]\<rparr>"

text \<open>\<^verbatim>\<open>lyd_free(node)\<close> (tree\_data.h): frees, and unlinks, the subtree of the node.\<close>

definition lyd_free :: "lyd_node \<Rightarrow> 'u pstate \<Rightarrow> 'u pstate" where
  "lyd_free n s = s\<lparr>freed := freed s @ [n]\<rparr>"

text \<open>
  The functions that parser\_xml.c calls and that are not among the sources are
  parameters of the model, each a function of its arguments and the state to its result
  and the new state:
  \<^item> \<^verbatim>\<open>transform_xml2json(ctx, expr, xml, log)\<close> gives the JSON form of an expression or
    null;
  \<^item> \<^verbatim>\<open>lyp_parse_value(leaf, type, resolve, unres, line)\<close> decodes \<^verbatim>\<open>leaf->value_str\<close>
    against the type: the typed value that it stores in \<^verbatim>\<open>leaf->value\<close>, or \<open>None\<close>
    where it returns non-zero;
  \<^item> \<^verbatim>\<open>lyv_data_context\<close> and \<^verbatim>\<open>lyv_data_content\<close> (node, options, line, unres) see the
    node linked into its tree, here the node, its parent and its earlier siblings, and
    answer \<open>True\<close> where they return non-zero;
  \<^item> \<^verbatim>\<open>resolve_unres_data(unres)\<close> resolves the deferred leafrefs and instance
    identifiers in the built tree: the tree with the targets stored, or \<open>None\<close> where
    it returns non-zero.
\<close>

record 'u env =
  transform_xml2json :: "string option \<Rightarrow> lyxml_elem \<Rightarrow> bool \<Rightarrow> 'u pstate \<Rightarrow> string option \<times> 'u pstate"
  lyp_parse_value :: "lyd_node \<Rightarrow> lys_type \<Rightarrow> bool \<Rightarrow> nat \<Rightarrow> 'u pstate \<Rightarrow> lyd_val option \<times> 'u pstate"
  lyv_data_context ::
    "lyd_node \<Rightarrow> lyd_node option \<Rightarrow> lyd_node list \<Rightarrow> LYD_OPT set \<Rightarrow> 'u pstate \<Rightarrow> bool \<times> 'u pstate"
  lyv_data_content ::
    "lyd_node \<Rightarrow> lyd_node option \<Rightarrow> lyd_node list \<Rightarrow> LYD_OPT set \<Rightarrow> 'u pstate \<Rightarrow> bool \<times> 'u pstate"
  resolve_unres_data :: "lyd_node list \<Rightarrow> 'u pstate \<Rightarrow> lyd_node list option \<times> 'u pstate"

definition EXIT_SUCCESS :: int where "EXIT_SUCCESS = 0"
definition EXIT_FAILURE :: int where "EXIT_FAILURE = 1"
definition UINT_MAX :: nat where "UINT_MAX = 4294967295"

text \<open>\<^verbatim>\<open>LOGLINE(xml)\<close> of common.h, as in a build with \<^verbatim>\<open>NDEBUG\<close>.\<close>

definition LOGLINE :: "lyxml_elem \<Rightarrow> nat" where
  "LOGLINE xml = 0"

section \<open>The value decoder of the XML parser (parser\_xml.c)\<close>

definition path_base :: "LY_DATA_TYPE \<Rightarrow> bool" where
  "path_base b = (b = LY_TYPE_IDENT \<or> b = LY_TYPE_INST)"

text \<open>
  Modelled from the spec: \<^verbatim>\<open>lyp_get_next_union_type(stype, type, &found)\<close>, which steps
  from one subtype of a union to the next, is not among the sources; ``subtypes are tried
  in textual order''. \<open>union_subtypes\<close> is the sequence of the types that it returns
  for a union, from the call with \<^verbatim>\<open>type\<close> null on: the array \<^verbatim>\<open>info.uni.types\<close> in
  its order.
\<close>

definition union_subtypes :: "lys_type \<Rightarrow> lys_type list" where
  "union_subtypes ty = uni_types ty"

text \<open>
  The \<^verbatim>\<open>while (type)\<close> loop of \<^verbatim>\<open>xml_get_value\<close> over the subtypes of a union, here
  the list of the subtypes still to try, \<^verbatim>\<open>type\<close> first. The leaf is given by its
  members; at the head of the loop \<^verbatim>\<open>xml->content\<close> is null and \<^verbatim>\<open>leaf->value_str\<close> is
  the text of the element. The result is \<open>True\<close> with the leaf where the loop ends by
  \<^verbatim>\<open>break\<close>, and \<open>False\<close> where it ends with \<^verbatim>\<open>type\<close> null.
\<close>

fun xml_get_value_union ::
  "'u env \<Rightarrow> lyxml_elem \<Rightarrow> bool \<Rightarrow> lys_node \<Rightarrow> lyd_attr list \<Rightarrow> string option \<Rightarrow> lyd_val \<Rightarrow> 32 word
    \<Rightarrow> lys_type list \<Rightarrow> 'u pstate \<Rightarrow> (bool \<times> lyd_node) \<times> 'u pstate" where
  "xml_get_value_union env xml resolve sch at vs v vt [] s =
     ((False, Lyd_node_leaf_list sch at vs v vt), s)"
| "xml_get_value_union env xml resolve sch at vs v vt (ty # tys) s =
     (if path_base (type_base ty) then
        (case transform_xml2json env vs xml False s of
           (None, s1) \<Rightarrow>
             xml_get_value_union env xml resolve sch at vs v (type_code (type_base ty)) tys s1
         | (Some js, s1) \<Rightarrow>
             (case lyp_parse_value env
                     (Lyd_node_leaf_list sch at (Some js) v (type_code (type_base ty)))
                     ty resolve UINT_MAX s1 of
                (Some v', s2) \<Rightarrow>
                  ((True, Lyd_node_leaf_list sch at (Some js) v' (type_code (type_base ty))), s2)
              | (None, s2) \<Rightarrow>
                  xml_get_value_union env xml resolve sch at vs v (type_code (type_base ty)) tys s2))
      else
        (case lyp_parse_value env
                (Lyd_node_leaf_list sch at vs v (type_code (type_base ty)))
                ty resolve UINT_MAX s of
           (Some v', s1) \<Rightarrow>
             ((True, Lyd_node_leaf_list sch at vs v' (type_code (type_base ty))), s1)
         | (None, s1) \<Rightarrow>
             xml_get_value_union env xml resolve sch at vs v (type_code (type_base ty)) tys s1))"

text \<open>The variable \<^verbatim>\<open>resolve\<close> of \<^verbatim>\<open>xml_get_value\<close> (lines 98 to 102).\<close>

definition resolve_now :: "LYD_OPT set \<Rightarrow> bool" where
  "resolve_now options =
     (if LYD_OPT_FILTER \<in> options \<or> LYD_OPT_EDIT \<in> options \<or> LYD_OPT_GET \<in> options
         \<or> LYD_OPT_GETCONFIG \<in> options
      then False else True)"

text \<open>
  \<^verbatim>\<open>xml_get_value(node, xml, options, unres)\<close>: the return code and the leaf. The source
  asserts that the node is a leaf or a leaf-list, which its one caller has checked; for
  another node the model answers \<open>EXIT_FAILURE\<close>. The reference counts of the dictionary
  (\<^verbatim>\<open>lydict_remove\<close>) are not part of the model.
\<close>

fun xml_get_value ::
  "'u env \<Rightarrow> lyd_node \<Rightarrow> lyxml_elem \<Rightarrow> LYD_OPT set \<Rightarrow> 'u pstate \<Rightarrow> (int \<times> lyd_node) \<times> 'u pstate" where
  "xml_get_value env (Lyd_node_leaf_list sch at vs0 v vt0) xml options s =
     (let st = stype sch;
          vs = xml_content xml;
          vt = type_code (type_base st)
      in if LYD_OPT_FILTER \<in> options \<and> vs = None
         then ((EXIT_SUCCESS, Lyd_node_leaf_list sch at vs v vt), s)
         else
           let resolve = resolve_now options;
               (vs1, s1) = (if path_base (type_base st)
                            then transform_xml2json env vs xml True s else (vs, s))
           in if path_base (type_base st) \<and> vs1 = None
              then ((EXIT_FAILURE, Lyd_node_leaf_list sch at vs1 v vt), s1)
              else if type_base st = LY_TYPE_UNION
              then (case xml_get_value_union env xml resolve sch at vs1 v vt (union_subtypes st) s1 of
                      ((True, leaf), s2) \<Rightarrow> ((EXIT_SUCCESS, leaf), s2)
                    | ((False, leaf), s2) \<Rightarrow> ((EXIT_FAILURE, leaf), LOGVAL LYE_INVAL s2))
              else (case lyp_parse_value env (Lyd_node_leaf_list sch at vs1 v vt) st resolve
                           (LOGLINE xml) s1 of
                      (Some v', s2) \<Rightarrow> ((EXIT_SUCCESS, Lyd_node_leaf_list sch at vs1 v' vt), s2)
                    | (None, s2) \<Rightarrow> ((EXIT_FAILURE, Lyd_node_leaf_list sch at vs1 v vt), s2)))"
| "xml_get_value env node xml options s = ((EXIT_FAILURE, node), s)"




section \<open>The tree builder of the XML parser (parser\_xml.c)\<close>

text \<open>
  The context, by what the parser reads of it: \<^verbatim>\<open>ctx->models.list[0 .. used-1]\<close>, each
  module with its list \<^verbatim>\<open>data\<close> of top-level schema nodes.
\<close>

record ly_ctx =
  models :: "(lys_module \<times> lys_node list) list"

text \<open>
  Modelled from the spec: \<^verbatim>\<open>ly_ctx_get_module_by_ns(ctx, ns, NULL)\<close> is not among the
  sources; it answers whether ``some module owns the namespace'', with that module.
\<close>

definition ly_ctx_get_module_by_ns :: "ly_ctx \<Rightarrow> string \<Rightarrow> lys_module option" where
  "ly_ctx_get_module_by_ns ctx ns =
     map_option fst (find (\<lambda>m. module_ns (fst m) = Some ns) (models ctx))"

text \<open>
  Modelled from the spec: the macro \<^verbatim>\<open>LY_NSYANG\<close> is not among the sources; it is the
  namespace of the \<^verbatim>\<open>insert\<close> and \<^verbatim>\<open>value\<close> attributes, the YANG namespace of RFC 6020.
\<close>

definition LY_NSYANG :: string where
  "LY_NSYANG = ''urn:ietf:params:xml:ns:yang:1''"

text \<open>
  The search of a root element's schema node (lines 189 to 200): the first module whose
  namespace is the element's decides, and in its \<^verbatim>\<open>data\<close> list the first node with the
  element's name is taken, whatever its node type.
\<close>

fun root_data_search :: "string \<Rightarrow> lys_node list \<Rightarrow> lys_node option" where
  "root_data_search xname [] = None"
| "root_data_search xname (sch # rest) =
     (if sname sch = xname then Some sch else root_data_search xname rest)"

fun root_search :: "string \<Rightarrow> string \<Rightarrow> (lys_module \<times> lys_node list) list \<Rightarrow> lys_node option" where
  "root_search xname xns [] = None"
| "root_search xname xns (m # ms) =
     (if module_ns (fst m) = Some xns then root_data_search xname (snd m)
      else root_search xname xns ms)"

text \<open>\<^verbatim>\<open>/* find schema node */\<close>, lines 184 to 204 of \<^verbatim>\<open>xml_parse_data\<close>.\<close>

definition find_schema ::
  "ly_ctx \<Rightarrow> string \<Rightarrow> string \<Rightarrow> lys_node option \<Rightarrow> lyd_node option \<Rightarrow> lys_node option" where
  "find_schema ctx xname xns schema_parent parent =
     (case schema_parent of
        Some sp \<Rightarrow> xml_data_search_schemanode xname xns (schild sp)
      | None \<Rightarrow>
          (case parent of
             None \<Rightarrow> root_search xname xns (models ctx)
           | Some p \<Rightarrow> xml_data_search_schemanode xname xns (schild (schema p))))"

text \<open>
  \<^verbatim>\<open>/* check insert attribute and its values */\<close>, lines 214 to 267: the two loops over
  the attributes of the element with the counter \<^verbatim>\<open>i\<close>, and the test of the counter.
  \<open>Inl\<close> is the validation code logged before \<^verbatim>\<open>return -1\<close>. The counter is a C
  \<^verbatim>\<open>int\<close> that grows by one for each value attribute of one element and stays far from
  its bounds; it is an integer here.
\<close>

fun insert_attrs :: "lys_node \<Rightarrow> lyxml_attr list \<Rightarrow> int \<Rightarrow> LY_VCODE + int" where
  "insert_attrs sch [] i = Inr i"
| "insert_attrs sch (a # as) i =
     (if attr_type a \<noteq> LYXML_ATTR_STD \<or> attr_ns a = None \<or> attr_name a \<noteq> ''insert''
         \<or> attr_ns a \<noteq> Some LY_NSYANG
      then insert_attrs sch as i
      else if sflags sch AND LYS_USERORDERED = 0 then Inl LYE_INATTR
      else if i \<noteq> 0 then Inl LYE_TOOMANY
      else if attr_value a = ''first'' \<or> attr_value a = ''last'' then insert_attrs sch as 1
      else if attr_value a = ''before'' \<or> attr_value a = ''after'' then insert_attrs sch as 2
      else Inl LYE_INARG)"

fun value_attrs :: "lyxml_attr list \<Rightarrow> int \<Rightarrow> LY_VCODE + int" where
  "value_attrs [] i = Inr i"
| "value_attrs (a # as) i =
     (if attr_type a \<noteq> LYXML_ATTR_STD \<or> attr_ns a = None \<or> attr_name a \<noteq> ''value''
         \<or> attr_ns a \<noteq> Some LY_NSYANG
      then value_attrs as i
      else if i < 2 then Inl LYE_INATTR
      else value_attrs as (i + 1))"

definition edit_attrs_check :: "lys_node \<Rightarrow> lyxml_attr list \<Rightarrow> LY_VCODE option" where
  "edit_attrs_check sch attrs =
     (case insert_attrs sch attrs 0 of
        Inl e \<Rightarrow> Some e
      | Inr i \<Rightarrow>
          (case value_attrs attrs i of
             Inl e \<Rightarrow> Some e
           | Inr j \<Rightarrow>
               if j = 2 then Some LYE_MISSATTR
               else if j > 3 then Some LYE_TOOMANY
               else None))"

text \<open>
  The \<^verbatim>\<open>switch (schema->nodetype)\<close> of lines 269 to 289: the node after \<^verbatim>\<open>calloc\<close>, with
  its \<^verbatim>\<open>schema\<close> (set at line 304), or \<open>None\<close> for the \<^verbatim>\<open>default\<close> branch.
\<close>

definition new_node :: "lys_node \<Rightarrow> lyd_node option" where
  "new_node sch =
     (if snodetype sch = LYS_CONTAINER \<or> snodetype sch = LYS_LIST \<or> snodetype sch = LYS_NOTIF
         \<or> snodetype sch = LYS_RPC
      then Some (Lyd_node sch [] [])
      else if snodetype sch = LYS_LEAF \<or> snodetype sch = LYS_LEAFLIST
      then Some (Lyd_node_leaf_list sch [] None Val_zero 0)
      else if snodetype sch = LYS_ANYXML
      then Some (Lyd_node_anyxml sch [] [])
      else None)"

definition havechildren :: "lys_node \<Rightarrow> bool" where
  "havechildren sch =
     (snodetype sch = LYS_CONTAINER \<or> snodetype sch = LYS_LIST \<or> snodetype sch = LYS_NOTIF
      \<or> snodetype sch = LYS_RPC)"

text \<open>
  The loop of lines 338 to 366 that copies the attributes: one of another type than
  \<^verbatim>\<open>LYXML_ATTR_STD\<close>, one without namespace and one whose namespace belongs to no module
  is left out (the warnings are not part of the model).
\<close>

fun copy_attrs :: "ly_ctx \<Rightarrow> lyxml_attr list \<Rightarrow> lyd_attr list \<Rightarrow> lyd_attr list" where
  "copy_attrs ctx [] acc = acc"
| "copy_attrs ctx (a # as) acc =
     (if attr_type a \<noteq> LYXML_ATTR_STD then copy_attrs ctx as acc
      else (case attr_ns a of
              None \<Rightarrow> copy_attrs ctx as acc
            | Some ns \<Rightarrow>
                (case ly_ctx_get_module_by_ns ctx ns of
                   None \<Rightarrow> copy_attrs ctx as acc
                 | Some m \<Rightarrow>
                     copy_attrs ctx as
                       (acc @ [\<lparr>dattr_module = m, dattr_name = attr_name a,
                                dattr_value = attr_value a\<rparr>]))))"

fun set_attr :: "lyd_node \<Rightarrow> lyd_attr list \<Rightarrow> lyd_node" where
  "set_attr (Lyd_node sch at ch) at' = Lyd_node sch at' ch"
| "set_attr (Lyd_node_leaf_list sch at vs v vt) at' = Lyd_node_leaf_list sch at' vs v vt"
| "set_attr (Lyd_node_anyxml sch at xs) at' = Lyd_node_anyxml sch at' xs"

text \<open>The children of an inner node, and the link of a further last child.\<close>

fun lyd_children :: "lyd_node \<Rightarrow> lyd_node list" where
  "lyd_children (Lyd_node sch at ch) = ch"
| "lyd_children n = []"

fun add_child :: "lyd_node \<Rightarrow> lyd_node \<Rightarrow> lyd_node" where
  "add_child (Lyd_node sch at ch) c = Lyd_node sch at (ch @ [c])"
| "add_child n c = n"

text \<open>
  \<^verbatim>\<open>xml_parse_data\<close> up to the attributes (lines 175 to 366). \<open>Inl\<close> is an early
  return, with the return code and \<^verbatim>\<open>*result\<close>; \<open>Inr\<close> is the node with its value and
  attributes, before its children are parsed. \<open>prev\<close> is the list of the siblings linked
  so far, which the source reaches from its argument \<^verbatim>\<open>prev\<close>, the last of them.
  The XML input is consumed by the parser (ownership of strings and of the anyxml
  children moves into the data tree, \<^verbatim>\<open>LYD_OPT_DESTRUCT\<close> frees elements); this is not part of
  the model.
\<close>

definition xml_parse_data_head ::
  "'u env \<Rightarrow> ly_ctx \<Rightarrow> lyxml_elem \<Rightarrow> lys_node option \<Rightarrow> lyd_node option \<Rightarrow> lyd_node list
    \<Rightarrow> LYD_OPT set \<Rightarrow> 'u pstate \<Rightarrow> ((int \<times> lyd_node option) \<times> 'u pstate) + (lyd_node \<times> 'u pstate)" where
  "xml_parse_data_head env ctx xml schema_parent parent prev options s =
     (case (case xml_ns xml of None \<Rightarrow> None | Some n \<Rightarrow> ns_value n) of
        None \<Rightarrow> Inl ((- 1, None), LOGVAL LYE_XML_MISS s)
      | Some xns \<Rightarrow>
          (case find_schema ctx (xml_name xml) xns schema_parent parent of
             None \<Rightarrow>
               if LYD_OPT_STRICT \<in> options \<or> ly_ctx_get_module_by_ns ctx xns \<noteq> None
               then Inl ((- 1, None), LOGVAL LYE_INELEM s)
               else Inl ((0, None), s)
           | Some sch \<Rightarrow>
               (case (if LYD_OPT_EDIT \<in> options then edit_attrs_check sch (xml_attr xml) else None) of
                  Some e \<Rightarrow> Inl ((- 1, None), LOGVAL e s)
                | None \<Rightarrow>
                    (case new_node sch of
                       None \<Rightarrow> Inl ((- 1, None), LOGERR LY_EINT s)
                     | Some node \<Rightarrow>
                         (case lyv_data_context env node parent prev options s of
                            (True, s1) \<Rightarrow> Inl ((- 1, None), lyd_free node s1)
                          | (False, s1) \<Rightarrow>
                              if snodetype sch = LYS_LEAF \<or> snodetype sch = LYS_LEAFLIST
                              then (case xml_get_value env node xml options s1 of
                                      ((r, leaf), s2) \<Rightarrow>
                                        if r \<noteq> 0 then Inl ((- 1, None), lyd_free leaf s2)
                                        else Inr (set_attr leaf (copy_attrs ctx (xml_attr xml) []), s2))
                              else if snodetype sch = LYS_ANYXML \<and> LYD_OPT_FILTER \<notin> options
                              then Inr (Lyd_node_anyxml sch (copy_attrs ctx (xml_attr xml) [])
                                          (xml_child xml), s1)
                              else Inr (set_attr node (copy_attrs ctx (xml_attr xml) []), s1))))))"

text \<open>
  The end of \<^verbatim>\<open>xml_parse_data\<close> (lines 389 to 409): \<^verbatim>\<open>ly_errno = 0\<close>, the content hook,
  and the labels \<^verbatim>\<open>error\<close> and \<^verbatim>\<open>clear\<close>.
\<close>

definition xml_parse_data_tail ::
  "'u env \<Rightarrow> lyd_node \<Rightarrow> lyd_node option \<Rightarrow> lyd_node list \<Rightarrow> LYD_OPT set \<Rightarrow> 'u pstate
    \<Rightarrow> (int \<times> lyd_node option) \<times> 'u pstate" where
  "xml_parse_data_tail env node parent prev options s =
     (case lyv_data_content env node parent prev options (s\<lparr>ly_errno := LY_SUCCESS\<rparr>) of
        (True, s1) \<Rightarrow>
          if ly_errno s1 \<noteq> LY_SUCCESS then ((- 1, None), lyd_free node s1)
          else ((0, None), lyd_free node s1)
      | (False, s1) \<Rightarrow> ((0, Some node), s1))"

text \<open>
  \<^verbatim>\<open>xml_parse_data(ctx, xml, schema_parent, parent, prev, options, unres, &result)\<close>: the
  return code, \<^verbatim>\<open>*result\<close> and the state. \<open>xml_parse_children\<close> is the loop of lines 369
  to 387 over the children of the element; it answers the code of the child that failed,
  or 0, with the node and the children linked to it so far.
\<close>

fun xml_parse_data ::
  "'u env \<Rightarrow> ly_ctx \<Rightarrow> lyxml_elem \<Rightarrow> lys_node option \<Rightarrow> lyd_node option \<Rightarrow> lyd_node list
    \<Rightarrow> LYD_OPT set \<Rightarrow> 'u pstate \<Rightarrow> (int \<times> lyd_node option) \<times> 'u pstate"
and xml_parse_children ::
  "'u env \<Rightarrow> ly_ctx \<Rightarrow> lyd_node \<Rightarrow> LYD_OPT set \<Rightarrow> lyxml_elem list \<Rightarrow> 'u pstate
    \<Rightarrow> (int \<times> lyd_node) \<times> 'u pstate" where
  "xml_parse_data env ctx (Lyxml_elem xname xns content attrs children) schema_parent parent prev
      options s =
     (case xml_parse_data_head env ctx (Lyxml_elem xname xns content attrs children)
             schema_parent parent prev options s of
        Inl res \<Rightarrow> res
      | Inr (node, s1) \<Rightarrow>
          (case (if havechildren (schema node) \<and> children \<noteq> []
                 then xml_parse_children env ctx node options children s1
                 else ((0, node), s1)) of
             ((r, node'), s2) \<Rightarrow>
               if r \<noteq> 0 then ((- 1, None), lyd_free node' s2)
               else xml_parse_data_tail env node' parent prev options s2))"
| "xml_parse_children env ctx node options [] s = ((0, node), s)"
| "xml_parse_children env ctx node options (c # cs) s =
     (case xml_parse_data env ctx c None (Some node) (lyd_children node)
             (if snodetype (schema node) = LYS_RPC \<or> snodetype (schema node) = LYS_NOTIF
              then {} else options) s of
        ((r, diter), s1) \<Rightarrow>
          if r \<noteq> 0 then ((r, node), s1)
          else xml_parse_children env ctx
                 (case diter of None \<Rightarrow> node | Some d \<Rightarrow> add_child node d) options cs s1)"

text \<open>
  \<^verbatim>\<open>lyd_parse_xml_(ctx, parent, root, options)\<close>. The loop over the children of \<^verbatim>\<open>root\<close>
  (lines 428 to 446) answers \<open>True\<close> where a child failed, after the nodes built so far
  have been freed, and else the list of the top-level nodes, whose first one the source
  keeps in \<^verbatim>\<open>result\<close>. The function returns \<open>None\<close> for a null pointer and else the
  sibling list that its result starts.
\<close>

definition free_all :: "lyd_node list \<Rightarrow> 'u pstate \<Rightarrow> 'u pstate" where
  "free_all ns s = foldl (\<lambda>s' n. lyd_free n s') s ns"

fun lyd_parse_xml_loop ::
  "'u env \<Rightarrow> ly_ctx \<Rightarrow> lys_node option \<Rightarrow> LYD_OPT set \<Rightarrow> lyxml_elem list \<Rightarrow> lyd_node list
    \<Rightarrow> 'u pstate \<Rightarrow> (bool \<times> lyd_node list) \<times> 'u pstate" where
  "lyd_parse_xml_loop env ctx parent options [] result s = ((False, result), s)"
| "lyd_parse_xml_loop env ctx parent options (xmlelem # rest) result s =
     (case xml_parse_data env ctx xmlelem parent None result options s of
        ((r, iter), s1) \<Rightarrow>
          if r \<noteq> 0 then ((True, []), free_all result s1)
          else lyd_parse_xml_loop env ctx parent options rest
                 (case iter of None \<Rightarrow> result | Some n \<Rightarrow> result @ [n]) s1)"

definition lyd_parse_xml_' ::
  "'u env \<Rightarrow> ly_ctx option \<Rightarrow> lys_node option \<Rightarrow> lyxml_elem option \<Rightarrow> LYD_OPT set \<Rightarrow> 'u pstate
    \<Rightarrow> lyd_node list option \<times> 'u pstate" where
  "lyd_parse_xml_' env ctx parent root options s =
     (case ctx of
        None \<Rightarrow> (None, LOGERR LY_EINVAL s)
      | Some c \<Rightarrow>
          (case root of
             None \<Rightarrow> (None, LOGERR LY_EINVAL s)
           | Some rt \<Rightarrow>
               (case lyd_parse_xml_loop env c parent options (xml_child rt) [] s of
                  ((True, result), s1) \<Rightarrow> (None, s1)
                | ((False, result), s1) \<Rightarrow>
                    if result = [] then (None, LOGERR LY_EVALID s1)
                    else (case resolve_unres_data env result s1 of
                            (None, s2) \<Rightarrow> (None, free_all result s2)
                          | (Some tree, s2) \<Rightarrow> (Some tree, s2)))))"

definition lyd_parse_xml ::
  "'u env \<Rightarrow> ly_ctx option \<Rightarrow> lyxml_elem option \<Rightarrow> LYD_OPT set \<Rightarrow> 'u pstate
    \<Rightarrow> lyd_node list option \<times> 'u pstate" where
  "lyd_parse_xml env ctx root options s = lyd_parse_xml_' env ctx None root options s"

text \<open>
  \<^verbatim>\<open>lyd_parse_output_xml(rpc, root, options)\<close>. A module structure points to its context;
  \<open>ctx_of\<close> is this member \<^verbatim>\<open>module->ctx\<close>.
\<close>

definition lyd_parse_output_xml ::
  "'u env \<Rightarrow> (lys_module \<Rightarrow> ly_ctx option) \<Rightarrow> lys_node option \<Rightarrow> lyxml_elem option \<Rightarrow> LYD_OPT set
    \<Rightarrow> 'u pstate \<Rightarrow> lyd_node list option \<times> 'u pstate" where
  "lyd_parse_output_xml env ctx_of rpc root options s =
     (case rpc of
        None \<Rightarrow> (None, LOGERR LY_EINVAL s)
      | Some r \<Rightarrow>
          if snodetype r \<noteq> LYS_RPC then (None, LOGERR LY_EINVAL s)
          else lyd_parse_xml_' env (ctx_of (smodule r)) (Some r) root options s)"

text \<open>
  The edit-attribute grammar in the words of the specification: the \<^verbatim>\<open>insert\<close> and the
  \<^verbatim>\<open>value\<close> attributes of an element are its standard attributes of that name in the YANG
  namespace. At most one \<^verbatim>\<open>insert\<close>; with one, the schema node is ordered by user and the
  value is one of first, last, before and after; \<^verbatim>\<open>value\<close> attributes only after an
  \<^verbatim>\<open>insert\<close> of before or after, and then exactly one.
\<close>

definition yang_attrs :: "string \<Rightarrow> lyxml_attr list \<Rightarrow> lyxml_attr list" where
  "yang_attrs nm attrs =
     filter (\<lambda>a. attr_type a = LYXML_ATTR_STD \<and> attr_ns a = Some LY_NSYANG \<and> attr_name a = nm) attrs"

definition edit_grammar_ok :: "lys_node \<Rightarrow> lyxml_attr list \<Rightarrow> bool" where
  "edit_grammar_ok sch attrs =
     (case yang_attrs ''insert'' attrs of
        [] \<Rightarrow> yang_attrs ''value'' attrs = []
      | [a] \<Rightarrow>
          sflags sch AND LYS_USERORDERED \<noteq> 0 \<and>
          (if attr_value a = ''first'' \<or> attr_value a = ''last''
           then yang_attrs ''value'' attrs = []
           else if attr_value a = ''before'' \<or> attr_value a = ''after''
           then length (yang_attrs ''value'' attrs) = 1
           else False)
      | _ \<Rightarrow> False)"

text \<open>
  The elements of a document that keep the edit-attribute grammar where a parse under
  \<^verbatim>\<open>LYD_OPT_EDIT\<close> reaches them with this option: an element whose schema node \<open>look\<close>
  finds keeps the grammar itself, and so do, by the search among the children of its schema
  node, its children, unless the schema node is an rpc or a notification, whose children
  are parsed with \<^verbatim>\<open>options\<close> 0, or has no children. An element without a namespace or
  without a schema node is not parsed further.
\<close>

fun edit_kept :: "(string \<Rightarrow> string \<Rightarrow> lys_node option) \<Rightarrow> lyxml_elem \<Rightarrow> bool" where
  "edit_kept look (Lyxml_elem xname xns content attrs children) =
     (case (case xns of None \<Rightarrow> None | Some n \<Rightarrow> ns_value n) of
        None \<Rightarrow> True
      | Some ns \<Rightarrow>
          (case look xname ns of
             None \<Rightarrow> True
           | Some sch \<Rightarrow>
               edit_grammar_ok sch attrs \<and>
               (if havechildren sch \<and> snodetype sch \<noteq> LYS_RPC \<and> snodetype sch \<noteq> LYS_NOTIF
                then list_all (edit_kept (\<lambda>n ns. xml_data_search_schemanode n ns (schild sch))) children
                else True)))"

section \<open>The link-in of a node, on the pointers (parser\_xml.c)\<close>

text \<open>
  Lines 290 to 303 of \<^verbatim>\<open>xml_parse_data\<close> link the new node to its parent and to the ring
  of its siblings. For these lines the data nodes are cells of a store, by address: the
  set of the allocated addresses and, for each pointer member of \<^verbatim>\<open>struct lyd_node\<close>, the
  map from the address of a node to the member (\<open>None\<close> is the null pointer).
  \<^verbatim>\<open>calloc\<close> gives a cell whose members are null.
\<close>

record heap =
  allocated :: "nat set"
  h_next :: "nat \<Rightarrow> nat option"
  h_prev :: "nat \<Rightarrow> nat option"
  h_parent :: "nat \<Rightarrow> nat option"
  h_child :: "nat \<Rightarrow> nat option"

definition calloc :: "nat \<Rightarrow> heap \<Rightarrow> heap" where
  "calloc a h = \<lparr>allocated = insert a (allocated h), h_next = (h_next h)(a := None),
     h_prev = (h_prev h)(a := None), h_parent = (h_parent h)(a := None),
     h_child = (h_child h)(a := None)\<rparr>"

text \<open>
  The loop \<^verbatim>\<open>for (diter = prev; diter->prev != prev; diter = diter->prev);\<close>, which looks
  for the first sibling. It ends by itself only when it meets a node whose \<^verbatim>\<open>prev\<close> is
  \<^verbatim>\<open>prev\<close>; reading through a pointer that is null or not allocated is \<open>None\<close>.
\<close>

partial_function (option) first_sibling :: "heap \<Rightarrow> nat \<Rightarrow> nat \<Rightarrow> nat option" where
  "first_sibling h prev diter =
     (if diter \<notin> allocated h then None
      else (case h_prev h diter of
              None \<Rightarrow> None
            | Some p \<Rightarrow> if p = prev then Some diter else first_sibling h prev p))"

text \<open>
  The link-in of the node at the fresh address \<open>result\<close>, with \<^verbatim>\<open>parent\<close> and \<^verbatim>\<open>prev\<close>
  as the source has them: \<^verbatim>\<open>prev\<close> is the last sibling linked so far, or null.
\<close>

definition link_in :: "heap \<Rightarrow> nat \<Rightarrow> nat option \<Rightarrow> nat option \<Rightarrow> heap option" where
  "link_in h result parent prev =
     (let h0 = calloc result h;
          h1 = h0\<lparr>h_parent := (h_parent h0)(result := parent)\<rparr>
      in case (case parent of
                 None \<Rightarrow> Some h1
               | Some p \<Rightarrow>
                   if p \<notin> allocated h1 then None
                   else if h_child h1 p = None
                   then Some (h1\<lparr>h_child := (h_child h1)(p := Some result)\<rparr>)
                   else Some h1) of
           None \<Rightarrow> None
         | Some h2 \<Rightarrow>
             (case prev of
                Some pv \<Rightarrow>
                  if pv \<notin> allocated h2 then None
                  else
                    let h3 = h2\<lparr>h_prev := (h_prev h2)(result := Some pv)\<rparr>;
                        h4 = h3\<lparr>h_next := (h_next h3)(pv := Some result)\<rparr>
                    in (case first_sibling h4 pv pv of
                          None \<Rightarrow> None
                        | Some diter \<Rightarrow> Some (h4\<lparr>h_prev := (h_prev h4)(diter := Some result)\<rparr>))
              | None \<Rightarrow> Some (h2\<lparr>h_prev := (h_prev h2)(result := Some result)\<rparr>)))"

text \<open>
  A sibling ring in the words of the specification: the nodes \<open>xs\<close>, the first sibling
  first, are distinct, each is followed through \<^verbatim>\<open>next\<close> by the next one, whose \<^verbatim>\<open>prev\<close>
  points back, \<^verbatim>\<open>next\<close> of the last one is null, and \<^verbatim>\<open>prev\<close> of the first one is the
  last one.
\<close>

fun chain :: "heap \<Rightarrow> nat list \<Rightarrow> bool" where
  "chain h [] = True"
| "chain h [x] = (x \<in> allocated h \<and> h_next h x = None)"
| "chain h (x # y # r) =
     (x \<in> allocated h \<and> h_next h x = Some y \<and> h_prev h y = Some x \<and> chain h (y # r))"

definition ring :: "heap \<Rightarrow> nat list \<Rightarrow> bool" where
  "ring h xs = (xs \<noteq> [] \<and> distinct xs \<and> chain h xs \<and> h_prev h (hd xs) = Some (last xs))"

text \<open>
  The stores that the tree builder reaches. The builder starts without nodes; each call
  of \<^verbatim>\<open>xml_parse_data\<close> links one node, at a fresh address, under its parent (null for a
  top-level node), and passes as \<^verbatim>\<open>prev\<close> the node that it has linked last under this
  parent (\<^verbatim>\<open>last\<close> in \<^verbatim>\<open>lyd_parse_xml_\<close>, \<^verbatim>\<open>dlast\<close> in \<^verbatim>\<open>xml_parse_data\<close>), or null for
  the first. \<open>kids\<close> keeps, for each parent, the nodes linked under it, in their order.
  \<^verbatim>\<open>lyd_free\<close>, which takes a node out of its ring again, is not among the sources and no
  step here.
\<close>

definition empty_heap :: heap where
  "empty_heap = \<lparr>allocated = {}, h_next = (\<lambda>a. None), h_prev = (\<lambda>a. None),
     h_parent = (\<lambda>a. None), h_child = (\<lambda>a. None)\<rparr>"

definition last_child :: "(nat option \<Rightarrow> nat list) \<Rightarrow> nat option \<Rightarrow> nat option" where
  "last_child kids parent = (if kids parent = [] then None else Some (last (kids parent)))"

inductive builder :: "heap \<Rightarrow> (nat option \<Rightarrow> nat list) \<Rightarrow> bool" where
  start: "builder empty_heap (\<lambda>p. [])"
| link: "builder h kids \<Longrightarrow> result \<notin> allocated h \<Longrightarrow>
         (case parent of None \<Rightarrow> True | Some p \<Rightarrow> p \<in> allocated h) \<Longrightarrow>
         link_in h result parent (last_child kids parent) = Some h' \<Longrightarrow>
         builder h' (kids(parent := kids parent @ [result]))"

text \<open>
  What holds in every such store, for the proof: the nodes of the sibling lists are the
  allocated ones, no node is in two lists, and each list is a valid ring.
\<close>

definition builder_inv :: "heap \<Rightarrow> (nat option \<Rightarrow> nat list) \<Rightarrow> bool" where
  "builder_inv h kids =
     ((\<forall>p. set (kids p) \<subseteq> allocated h) \<and>
      (\<forall>n\<in>allocated h. \<exists>p. n \<in> set (kids p)) \<and>
      (\<forall>p q. p \<noteq> q \<longrightarrow> set (kids p) \<inter> set (kids q) = {}) \<and>
      (\<forall>p. kids p = [] \<or> ring h (kids p)))"

section \<open>The JSON printer (printer\_json.c)\<close>

text \<open>
  The printer writes through \<^verbatim>\<open>ly_print\<close>; a function of the printer is the text it
  writes, or \<open>None\<close> where it reads through a pointer that is null or of another
  structure than the one it is cast to (a leafref value without target, a node whose
  structure is not the one of its schema node type). The level is never negative;
  \<^verbatim>\<open>"%*s", LEVEL, INDENT\<close> writes \<open>2 * level\<close> blanks.
\<close>

definition NL :: string where "NL = [CHR 0x0A]"
definition DQ :: string where "DQ = [CHR 0x22]"

definition indent :: "nat \<Rightarrow> string" where
  "indent level = replicate (2 * level) CHR '' ''"

fun ocat :: "string option \<Rightarrow> string option \<Rightarrow> string option" where
  "ocat (Some a) (Some b) = Some (a @ b)"
| "ocat _ _ = None"

text \<open>
  Modelled from the spec: the macro \<^verbatim>\<open>nscmp\<close> is not among the sources. ``Two nodes share
  namespace scope iff their schema modules are identical; submodules resolve to their
  belongs-to module for this purpose''; \<^verbatim>\<open>nscmp\<close> is non-zero where they do not.
\<close>

fun main_module :: "lys_module \<Rightarrow> lys_module" where
  "main_module (Lys_module n ns) = Lys_module n ns"
| "main_module (Lys_submodule n b) = b"

definition nscmp :: "lyd_node \<Rightarrow> lyd_node \<Rightarrow> bool" where
  "nscmp a b = (main_module (smodule (schema a)) \<noteq> main_module (smodule (schema b)))"

text \<open>
  The variable \<^verbatim>\<open>schema\<close> of the four print functions: the module name to print before the
  node name, set where the node has no parent or another namespace than its parent.
  \<open>parent\<close> is \<^verbatim>\<open>node->parent\<close>.
\<close>

definition ns_prefix_name :: "lyd_node option \<Rightarrow> lyd_node \<Rightarrow> string option" where
  "ns_prefix_name parent node =
     (if (case parent of None \<Rightarrow> True | Some p \<Rightarrow> nscmp node p)
      then (if mod_type (smodule (schema node))
            then Some (mod_name (mod_belongsto (smodule (schema node))))
            else Some (mod_name (smodule (schema node))))
      else None)"

definition member_name :: "lyd_node option \<Rightarrow> lyd_node \<Rightarrow> string" where
  "member_name parent node =
     (case ns_prefix_name parent node of
        Some m \<Rightarrow> m @ '':'' @ sname (schema node)
      | None \<Rightarrow> sname (schema node))"

fun json_print_attrs_loop :: "nat \<Rightarrow> lys_module \<Rightarrow> lyd_attr list \<Rightarrow> string" where
  "json_print_attrs_loop level m [] = []"
| "json_print_attrs_loop level m (a # as) =
     (if dattr_module a \<noteq> m
      then indent level @ DQ @ mod_name (dattr_module a) @ '':'' @ dattr_name a @ DQ @ '':'' @ DQ
           @ dattr_value a @ DQ @ (if as \<noteq> [] then '','' @ NL else NL)
      else indent level @ DQ @ dattr_name a @ DQ @ '':'' @ DQ @ dattr_value a @ DQ
           @ (if as \<noteq> [] then '','' @ NL else NL))
     @ json_print_attrs_loop level m as"

definition json_print_attrs :: "nat \<Rightarrow> lyd_node \<Rightarrow> string" where
  "json_print_attrs level node = json_print_attrs_loop level (smodule (schema node)) (attr node)"

text \<open>
  \<^verbatim>\<open>json_print_leaf(out, level, node, onlyvalue)\<close>. For a leafref the target leaf is
  printed with \<^verbatim>\<open>onlyvalue\<close> set, where its parent is not read.
\<close>

fun json_print_leaf :: "nat \<Rightarrow> lyd_node option \<Rightarrow> lyd_node \<Rightarrow> bool \<Rightarrow> string option" where
  "json_print_leaf level parent (Lyd_node_leaf_list sch at vs v vt) onlyvalue =
     ocat
       (Some (if \<not> onlyvalue
              then indent level @ DQ
                   @ member_name parent (Lyd_node_leaf_list sch at vs v vt) @ DQ @ '': ''
              else []))
       (ocat
          (if vt AND LY_DATA_TYPE_MASK \<in> type_code ` {LY_TYPE_BINARY, LY_TYPE_STRING, LY_TYPE_BITS,
                 LY_TYPE_ENUM, LY_TYPE_IDENT, LY_TYPE_INST}
           then Some (DQ @ (case vs of Some t \<Rightarrow> t | None \<Rightarrow> []) @ DQ)
           else if vt AND LY_DATA_TYPE_MASK \<in> type_code ` {LY_TYPE_BOOL, LY_TYPE_DEC64, LY_TYPE_INT8,
                 LY_TYPE_INT16, LY_TYPE_INT32, LY_TYPE_INT64, LY_TYPE_UINT8, LY_TYPE_UINT16,
                 LY_TYPE_UINT32, LY_TYPE_UINT64}
           then Some (case vs of Some t \<Rightarrow> t | None \<Rightarrow> ''null'')
           else if vt AND LY_DATA_TYPE_MASK = type_code LY_TYPE_LEAFREF
           then (case v of
                   Val_leafref target \<Rightarrow> json_print_leaf level None target True
                 | _ \<Rightarrow> None)
           else if vt AND LY_DATA_TYPE_MASK = type_code LY_TYPE_EMPTY
           then Some ''[null]''
           else Some (DQ @ ''(!error!)'' @ DQ))
          (Some (if \<not> onlyvalue \<and> at \<noteq> []
                 then '','' @ NL @ indent level @ DQ @ ''@''
                      @ member_name parent (Lyd_node_leaf_list sch at vs v vt) @ DQ @ '': {'' @ NL
                      @ json_print_attrs (level + 1) (Lyd_node_leaf_list sch at vs v vt)
                      @ indent level @ ''}''
                 else [])))"
| "json_print_leaf level parent node onlyvalue = None"

text \<open>\<^verbatim>\<open>json_print_anyxml(out, level, node)\<close>.\<close>

definition json_print_anyxml :: "nat \<Rightarrow> lyd_node option \<Rightarrow> lyd_node \<Rightarrow> string" where
  "json_print_anyxml level parent node =
     indent level @ DQ @ member_name parent node @ DQ @ '': [null]''
     @ (if attr node \<noteq> []
        then '','' @ NL @ indent level @ DQ @ ''@'' @ member_name parent node @ DQ @ '': {'' @ NL
             @ json_print_attrs (level + 1) node @ indent level @ ''}''
        else [])"

text \<open>
  The member after the first five of a data node read as \<^verbatim>\<open>child\<close>, as
  \<^verbatim>\<open>json_print_leaf_list\<close> does for lists and leaf-lists alike (\<^verbatim>\<open>!list->child\<close>): the first
  child of an inner node, \<^verbatim>\<open>value_str\<close> of a leaf or leaf-list, the value of an anyxml.
\<close>

fun child_is_null :: "lyd_node \<Rightarrow> bool" where
  "child_is_null (Lyd_node sch at ch) = (ch = [])"
| "child_is_null (Lyd_node_leaf_list sch at vs v vt) = (vs = None)"
| "child_is_null (Lyd_node_anyxml sch at xs) = (xs = [])"

text \<open>
  The two loops of \<^verbatim>\<open>json_print_leaf_list\<close> for a leaf-list (\<^verbatim>\<open>is_list\<close> is 0), over the
  node and the siblings after it. Each loop prints an entry, steps to the next sibling
  with the schema node of \<^verbatim>\<open>node\<close>, and prints a comma and a line break if there is one:
  here the siblings after the node are run through, one of another schema node prints
  nothing, one of the same schema node prints the comma, the line break and its entry.
  The first loop also answers what it adds to \<^verbatim>\<open>flag_attrs\<close>.
\<close>

definition leaflist_value :: "nat \<Rightarrow> lyd_node \<Rightarrow> string option" where
  "leaflist_value level list = ocat (Some (indent level)) (json_print_leaf level None list True)"

fun leaflist_values :: "nat \<Rightarrow> lyd_node \<Rightarrow> lyd_node list \<Rightarrow> string option \<times> bool" where
  "leaflist_values level node [] = (Some [], False)"
| "leaflist_values level node (list # rest) =
     (if schema list \<noteq> schema node then leaflist_values level node rest
      else (ocat (Some ('','' @ NL))
              (ocat (leaflist_value level list) (fst (leaflist_values level node rest))),
            attr list \<noteq> [] \<or> snd (leaflist_values level node rest)))"

definition leaflist_attr :: "nat \<Rightarrow> lyd_node \<Rightarrow> string" where
  "leaflist_attr level list =
     (if attr list \<noteq> []
      then indent level @ ''{ '' @ json_print_attrs 0 list @ indent level @ ''}''
      else indent level @ ''null'')"

fun leaflist_attrs :: "nat \<Rightarrow> lyd_node \<Rightarrow> lyd_node list \<Rightarrow> string" where
  "leaflist_attrs level node [] = []"
| "leaflist_attrs level node (list # rest) =
     (if schema list \<noteq> schema node then leaflist_attrs level node rest
      else '','' @ NL @ leaflist_attr level list @ leaflist_attrs level node rest)"

text \<open>
  \<^verbatim>\<open>json_print_nodes\<close>, \<^verbatim>\<open>json_print_container\<close>, \<^verbatim>\<open>json_print_leaf_list\<close> and, for a list, the
  body and the rest of its \<^verbatim>\<open>while (list)\<close> loop.

  \<open>json_print_nodes_loop\<close> is the \<^verbatim>\<open>LY_TREE_FOR\<close> loop of \<^verbatim>\<open>json_print_nodes\<close> at a node
  with the list \<open>earlier\<close> of its earlier siblings, the nearest first, and the siblings
  after it. In a sibling ring \<^verbatim>\<open>node->prev->next\<close> is null exactly for the first sibling,
  and the walk \<^verbatim>\<open>iter = node->prev; iter->next; iter = iter->prev\<close> runs through the earlier
  siblings, the nearest first, and ends at the last sibling of the ring, whose \<^verbatim>\<open>next\<close> is
  null. \<^verbatim>\<open>LOGINT\<close> of the \<^verbatim>\<open>default\<close> branch writes nothing.
\<close>

fun already_printed :: "lyd_node \<Rightarrow> lyd_node list \<Rightarrow> bool" where
  "already_printed node [] = False"
| "already_printed node (iter # earlier) =
     (if schema iter = schema node then True else already_printed node earlier)"

text \<open>
  The texts that \<^verbatim>\<open>json_print_container\<close> and the list branch of \<^verbatim>\<open>json_print_leaf_list\<close>
  write before the children of a node: the member name or the brace of the entry, and the
  member \<^verbatim>\<open>"@"\<close> with the attributes where the node has some. The list branch tests
  \<^verbatim>\<open>list->attr\<close> and then prints the attributes of \<^verbatim>\<open>node\<close>, the first instance
  (\<^verbatim>\<open>json_print_attrs(out, level + 1, node)\<close>).
\<close>

definition container_open :: "nat \<Rightarrow> lyd_node option \<Rightarrow> lyd_node \<Rightarrow> string" where
  "container_open level parent node =
     indent level @ DQ @ member_name parent node @ DQ @ '': {'' @ NL
     @ (if attr node \<noteq> []
        then indent (level + 1) @ DQ @ ''@'' @ DQ @ '': {'' @ NL
             @ json_print_attrs (level + 2) node
             @ indent (level + 1) @ ''}'' @ (if \<not> child_is_null node then '','' @ NL else [])
        else [])"

definition list_entry_open :: "nat \<Rightarrow> lyd_node \<Rightarrow> lyd_node \<Rightarrow> string" where
  "list_entry_open level node list =
     indent (level + 1) @ ''{'' @ NL
     @ (if attr list \<noteq> []
        then indent (level + 2) @ DQ @ ''@'' @ DQ @ '': {'' @ NL
             @ json_print_attrs (level + 3) node
             @ indent (level + 2) @ ''}'' @ (if \<not> child_is_null list then '','' @ NL else [])
        else [])"

text \<open>
  The end of \<^verbatim>\<open>json_print_leaf_list\<close>: the bracket that closes the array and, for a
  leaf-list with \<^verbatim>\<open>flag_attrs\<close> set, the array of the attributes.
\<close>

definition leaf_list_close ::
  "nat \<Rightarrow> lyd_node option \<Rightarrow> lyd_node \<Rightarrow> lyd_node list \<Rightarrow> bool \<Rightarrow> string" where
  "leaf_list_close level parent node after is_list =
     NL @ indent level @ '']''
     @ (if \<not> is_list \<and> (attr node \<noteq> [] \<or> snd (leaflist_values (level + 1) node after))
        then '','' @ NL @ indent level @ DQ @ ''@'' @ member_name parent node @ DQ @ '': ['' @ NL
             @ leaflist_attr (level + 1) node
             @ leaflist_attrs (level + 1) node after
             @ NL @ indent level @ '']''
        else [])"

definition comma :: "lyd_node list \<Rightarrow> string" where
  "comma earlier = (if earlier \<noteq> [] then '','' @ NL else [])"

function (sequential)
    json_print_nodes_loop :: "nat \<Rightarrow> lyd_node option \<Rightarrow> lyd_node list \<Rightarrow> lyd_node list \<Rightarrow> string option"
and json_print_container :: "nat \<Rightarrow> lyd_node option \<Rightarrow> lyd_node \<Rightarrow> string option"
and json_print_leaf_list :: "nat \<Rightarrow> lyd_node option \<Rightarrow> lyd_node \<Rightarrow> lyd_node list \<Rightarrow> bool \<Rightarrow> string option"
and list_entry :: "nat \<Rightarrow> lyd_node \<Rightarrow> lyd_node \<Rightarrow> string option"
and list_entries :: "nat \<Rightarrow> lyd_node \<Rightarrow> lyd_node list \<Rightarrow> string option" where
  "json_print_nodes_loop level parent earlier [] = Some []"
| "json_print_nodes_loop level parent earlier (node # after) =
     ocat
       (if snodetype (schema node) = LYS_RPC \<or> snodetype (schema node) = LYS_NOTIF
           \<or> snodetype (schema node) = LYS_CONTAINER
        then ocat (Some (comma earlier)) (json_print_container level parent node)
        else if snodetype (schema node) = LYS_LEAF
        then ocat (Some (comma earlier)) (json_print_leaf level parent node False)
        else if snodetype (schema node) = LYS_LEAFLIST \<or> snodetype (schema node) = LYS_LIST
        then (if \<not> already_printed node earlier
              then ocat (Some (comma earlier))
                     (json_print_leaf_list level parent node after
                        (snodetype (schema node) = LYS_LIST))
              else Some [])
        else if snodetype (schema node) = LYS_ANYXML
        then Some (comma earlier @ json_print_anyxml level parent node)
        else Some [])
       (json_print_nodes_loop level parent (node # earlier) after)"
| "json_print_container level parent (Lyd_node sch at ch) =
     ocat (Some (container_open level parent (Lyd_node sch at ch)))
       (ocat (json_print_nodes_loop (level + 1) (Some (Lyd_node sch at ch)) [] ch)
          (Some (NL @ indent level @ ''}'')))"
| "json_print_container level parent node = None"
| "json_print_leaf_list level parent node after is_list =
     ocat (Some (indent level @ DQ @ member_name parent node @ DQ @ '':''))
       (if child_is_null node then Some '' null''
        else
          ocat (Some ('' ['' @ NL))
            (ocat
               (if is_list
                then ocat (list_entry level node node) (list_entries level node after)
                else ocat (leaflist_value (level + 1) node)
                       (fst (leaflist_values (level + 1) node after)))
               (Some (leaf_list_close level parent node after is_list))))"
| "list_entry level node (Lyd_node sch at ch) =
     ocat (Some (list_entry_open level node (Lyd_node sch at ch)))
       (ocat (json_print_nodes_loop (level + 2) (Some (Lyd_node sch at ch)) [] ch)
          (Some (NL @ indent (level + 1) @ ''}'')))"
| "list_entry level node list = None"
| "list_entries level node [] = Some []"
| "list_entries level node (list # rest) =
     (if schema list \<noteq> schema node then list_entries level node rest
      else ocat (Some ('','' @ NL))
             (ocat (list_entry level node list) (list_entries level node rest)))"
  by pat_completeness auto

termination
  by (relation "measure (\<lambda>x. case x of
         Inl (Inl (level, parent, earlier, nodes)) \<Rightarrow> 4 * size_list size nodes + 3
       | Inl (Inr (level, parent, node)) \<Rightarrow> 4 * size node
       | Inr (Inl (level, parent, node, after, is_list)) \<Rightarrow> 4 * size_list size (node # after) + 2
       | Inr (Inr (Inl (level, node, list))) \<Rightarrow> 4 * size list
       | Inr (Inr (Inr (level, node, rest))) \<Rightarrow> 4 * size_list size rest + 1)")
     simp_all

definition json_print_nodes :: "nat \<Rightarrow> lyd_node option \<Rightarrow> lyd_node list \<Rightarrow> lyd_node list \<Rightarrow> string option" where
  "json_print_nodes level parent earlier root =
     ocat (json_print_nodes_loop level parent earlier root) (Some NL)"

text \<open>\<^verbatim>\<open>json_print_data(out, root)\<close>, for a \<^verbatim>\<open>root\<close> that is the first of its siblings.\<close>

definition json_print_data :: "lyd_node list \<Rightarrow> string option" where
  "json_print_data root =
     ocat (Some (''{'' @ NL)) (ocat (json_print_nodes 1 None [] root) (Some (''}'' @ NL)))"

text \<open>
  The arrays in the words of the specification: the instances of a list or leaf-list are
  the node and every later sibling of its schema node; the entries of an array are
  separated by a comma and a line break; the parallel array of the attributes holds, for
  each instance in order, an object of the attributes of the instance where it has some
  and \<^verbatim>\<open>null\<close> where it has none, and is printed where some instance has attributes.
\<close>

definition instances :: "lyd_node \<Rightarrow> lyd_node list \<Rightarrow> lyd_node list" where
  "instances node after = node # filter (\<lambda>n. schema n = schema node) after"

fun join_entries :: "string option list \<Rightarrow> string option" where
  "join_entries [] = Some []"
| "join_entries [e] = e"
| "join_entries (e # es) = ocat e (ocat (Some ('','' @ NL)) (join_entries es))"

fun join_lines :: "string list \<Rightarrow> string" where
  "join_lines [] = []"
| "join_lines [e] = e"
| "join_lines (e # es) = e @ '','' @ NL @ join_lines es"

definition attr_array :: "nat \<Rightarrow> lyd_node option \<Rightarrow> lyd_node \<Rightarrow> lyd_node list \<Rightarrow> string" where
  "attr_array level parent node insts =
     (if list_ex (\<lambda>n. attr n \<noteq> []) insts
      then '','' @ NL @ indent level @ DQ @ ''@'' @ member_name parent node @ DQ @ '': ['' @ NL
           @ join_lines (map (\<lambda>n. if attr n \<noteq> []
                                   then indent (level + 1) @ ''{ '' @ json_print_attrs 0 n
                                        @ indent (level + 1) @ ''}''
                                   else indent (level + 1) @ ''null'') insts)
           @ NL @ indent level @ '']''
      else [])"

section \<open>Example inputs\<close>

text \<open>
  Scenario 2 of the specification: a leaf \<open>v\<close> of module \<open>m\<close> whose type is the union of
  an identityref and a string, the element \<^verbatim>\<open><v xmlns:p="urn:m">p:id1</v>\<close> and the same
  element without the declaration of \<open>p\<close>. The collaborators of the example translate
  \<open>p:id1\<close> where \<open>p\<close> is declared for \<open>urn:m\<close>, accept any text as a string and
  \<open>m:id1\<close> as an identity, and never touch the state.
\<close>

definition ex_state :: "unit pstate" where
  "ex_state = \<lparr>ly_errno = LY_SUCCESS, vlog = [], freed = [], unres = ()\<rparr>"

definition ex_mod_m :: lys_module where
  "ex_mod_m = Lys_module ''m'' ''urn:m''"

definition ex_xml2json :: "string option \<Rightarrow> lyxml_elem \<Rightarrow> bool \<Rightarrow> unit pstate \<Rightarrow> string option \<times> unit pstate" where
  "ex_xml2json e xml lg s =
     (if e = Some ''p:id1'' \<and>
         list_ex (\<lambda>a. attr_type a = LYXML_ATTR_NS \<and> attr_name a = ''p'' \<and> attr_value a = ''urn:m'')
           (xml_attr xml)
      then Some ''m:id1'' else None, s)"

definition ex_parse_value :: "lyd_node \<Rightarrow> lys_type \<Rightarrow> bool \<Rightarrow> nat \<Rightarrow> unit pstate \<Rightarrow> lyd_val option \<times> unit pstate" where
  "ex_parse_value leaf ty resolve line s =
     (case leaf of
        Lyd_node_leaf_list _ _ (Some t) _ _ \<Rightarrow>
          (if type_base ty = LY_TYPE_STRING then Some (Val_str t)
           else if type_base ty = LY_TYPE_IDENT \<and> t = ''m:id1'' then Some (Val_str ''id1'')
           else None)
      | _ \<Rightarrow> None, s)"

definition ex_env :: "unit env" where
  "ex_env = \<lparr>transform_xml2json = ex_xml2json, lyp_parse_value = ex_parse_value,
             lyv_data_context = (\<lambda>n p b opts s. (False, s)),
             lyv_data_content = (\<lambda>n p b opts s. (False, s)),
             resolve_unres_data = (\<lambda>t s. (Some t, s))\<rparr>"

definition ex_leaf_v :: lys_node where
  "ex_leaf_v = Lys_node ''v'' 0 ex_mod_m LYS_LEAF []
     (Lys_type LY_TYPE_UNION [Lys_type LY_TYPE_IDENT [], Lys_type LY_TYPE_STRING []])"


definition ex_ns_m :: lyxml_ns where
  "ex_ns_m = \<lparr>ns_prefix = None, ns_value = Some ''urn:m''\<rparr>"

definition ex_xml_v :: lyxml_elem where
  "ex_xml_v = Lyxml_elem ''v'' (Some ex_ns_m) (Some ''p:id1'')
     [\<lparr>attr_type = LYXML_ATTR_NS, attr_ns = None, attr_name = ''p'', attr_value = ''urn:m''\<rparr>] []"


text \<open>
  A user-ordered leaf-list \<open>x\<close> of module \<open>m\<close>, the context with this module alone,
  elements \<open>x\<close> with edit attributes, an element of a namespace that no module owns, a
  document root, collaborators whose resolution of the deferred references fails, and the
  leaf that the parser builds for the element \<open>v\<close> of scenario 2.
\<close>

definition ex_leaflist_x :: lys_node where
  "ex_leaflist_x = Lys_node ''x'' LYS_USERORDERED ex_mod_m LYS_LEAFLIST [] (Lys_type LY_TYPE_STRING [])"

definition ex_ctx :: ly_ctx where
  "ex_ctx = \<lparr>models = [(ex_mod_m, [ex_leaf_v, ex_leaflist_x])]\<rparr>"

definition ex_attr_insert :: "string \<Rightarrow> lyxml_attr" where
  "ex_attr_insert v = \<lparr>attr_type = LYXML_ATTR_STD, attr_ns = Some LY_NSYANG, attr_name = ''insert'',
     attr_value = v\<rparr>"

definition ex_attr_value :: "string \<Rightarrow> lyxml_attr" where
  "ex_attr_value v = \<lparr>attr_type = LYXML_ATTR_STD, attr_ns = Some LY_NSYANG, attr_name = ''value'',
     attr_value = v\<rparr>"

definition ex_xml_x :: "lyxml_attr list \<Rightarrow> lyxml_elem" where
  "ex_xml_x attrs = Lyxml_elem ''x'' (Some ex_ns_m) (Some ''b'') attrs []"

definition ex_ns_other :: lyxml_ns where
  "ex_ns_other = \<lparr>ns_prefix = None, ns_value = Some ''urn:other''\<rparr>"

definition ex_xml_unknown :: lyxml_elem where
  "ex_xml_unknown = Lyxml_elem ''y'' (Some ex_ns_other) None [] []"

definition ex_root :: "lyxml_elem list \<Rightarrow> lyxml_elem" where
  "ex_root children = Lyxml_elem ''data'' (Some ex_ns_other) None [] children"

definition ex_env_unresolved :: "unit env" where
  "ex_env_unresolved = ex_env\<lparr>resolve_unres_data := (\<lambda>t s. (None, s))\<rparr>"

definition ex_leaf_built :: lyd_node where
  "ex_leaf_built = Lyd_node_leaf_list ex_leaf_v [] (Some ''m:id1'') (Val_str ''id1'') (type_code LY_TYPE_IDENT)"

text \<open>
  A list \<open>l\<close> with a leaf \<open>k\<close> in module \<open>m\<close>, and instances of \<open>k\<close> and of the
  leaf-list \<open>x\<close>.
\<close>

definition ex_leaf_k :: lys_node where
  "ex_leaf_k = Lys_node ''k'' 0 ex_mod_m LYS_LEAF [] (Lys_type LY_TYPE_STRING [])"

definition ex_list_l :: lys_node where
  "ex_list_l = Lys_node ''l'' 0 ex_mod_m LYS_LIST [ex_leaf_k] (Lys_type LY_TYPE_DER [])"

definition ex_k :: "string \<Rightarrow> lyd_node" where
  "ex_k t = Lyd_node_leaf_list ex_leaf_k [] (Some t) (Val_str t) (type_code LY_TYPE_STRING)"

definition ex_attr :: "string \<Rightarrow> string \<Rightarrow> lyd_attr" where
  "ex_attr n v = \<lparr>dattr_module = ex_mod_m, dattr_name = n, dattr_value = v\<rparr>"

definition ex_x :: "lyd_attr list \<Rightarrow> string \<Rightarrow> lyd_node" where
  "ex_x at t = Lyd_node_leaf_list ex_leaflist_x at (Some t) (Val_str t) (type_code LY_TYPE_STRING)"

text \<open>
  An rpc \<open>r\<close> of module \<open>m\<close> whose input is the leaf-list \<open>x\<close>, the context with
  \<open>x\<close> and \<open>r\<close> at the top of the module, and the element \<open>r\<close>.
\<close>

definition ex_input_r :: lys_node where
  "ex_input_r = Lys_node ''input'' 0 ex_mod_m LYS_INPUT [ex_leaflist_x] (Lys_type LY_TYPE_DER [])"

definition ex_rpc_r :: lys_node where
  "ex_rpc_r = Lys_node ''r'' 0 ex_mod_m LYS_RPC [ex_input_r] (Lys_type LY_TYPE_DER [])"

definition ex_ctx_rpc :: ly_ctx where
  "ex_ctx_rpc = \<lparr>models = [(ex_mod_m, [ex_leaflist_x, ex_rpc_r])]\<rparr>"

definition ex_xml_r :: "lyxml_elem list \<Rightarrow> lyxml_elem" where
  "ex_xml_r children = Lyxml_elem ''r'' (Some ex_ns_m) None [] children"

section \<open>Properties\<close>

lemma transparent_bits:
  "(nodetype_bits nt AND
      (nodetype_bits LYS_CHOICE OR nodetype_bits LYS_CASE OR nodetype_bits LYS_USES
       OR nodetype_bits LYS_INPUT OR nodetype_bits LYS_OUTPUT) \<noteq> 0) = transparent nt"
  by (cases nt) (simp_all add: transparent_def)




subsection \<open>The value decoder\<close>



declare xml_get_value_union.simps(2) [simp del]











lemma type_code_inj: "type_code a = type_code b \<Longrightarrow> a = b"
  by (cases a; cases b; simp)







subsection \<open>The tree builder\<close>

lemma root_search_none:
  "\<forall>m\<in>set ms. module_ns (fst m) \<noteq> Some xns \<Longrightarrow> root_search xname xns ms = None"
  by (induction ms) auto

lemma get_module_none:
  "\<forall>m\<in>set (models c). module_ns (fst m) \<noteq> Some xns \<Longrightarrow> ly_ctx_get_module_by_ns c xns = None"
  by (auto simp: ly_ctx_get_module_by_ns_def find_None_iff)

lemma unknown_root_skipped:
  assumes "xml_ns x = Some n" "ns_value n = Some xns"
    "\<forall>m\<in>set (models c). module_ns (fst m) \<noteq> Some xns"
  shows "xml_parse_data env c x None None prev {} s = ((0, None), s)"
  using assms
  by (cases x) (simp add: xml_parse_data_head_def find_schema_def root_search_none get_module_none)

lemma lax_loop_unknown:
  "\<forall>x\<in>set xs. \<exists>n xns. xml_ns x = Some n \<and> ns_value n = Some xns \<and>
        (\<forall>m\<in>set (models c). module_ns (fst m) \<noteq> Some xns) \<Longrightarrow>
   lyd_parse_xml_loop env c None {} xs [] s = ((False, []), s)"
proof (induction xs)
  case Nil
  show ?case by simp
next
  case (Cons x xs)
  then obtain n xns where "xml_ns x = Some n" "ns_value n = Some xns"
    "\<forall>m\<in>set (models c). module_ns (fst m) \<noteq> Some xns" by auto
  then have "xml_parse_data env c x None None [] {} s = ((0, None), s)"
    by (rule unknown_root_skipped)
  with Cons show ?case by simp
qed

text \<open>
  C4, against the claim as stated. With no option set and a context that owns the
  namespace \<open>urn:m\<close> only, a document whose one element is in the namespace
  \<open>urn:other\<close> yields no tree, and \<^verbatim>\<open>ly_errno\<close>, clear before the call, is
  \<^verbatim>\<open>LY_EVALID\<close> after it.
\<close>

theorem lax_unknown_namespace_sets_error:
  "ly_errno ex_state = LY_SUCCESS \<and>
   fst (lyd_parse_xml ex_env (Some ex_ctx) (Some (ex_root [ex_xml_unknown])) {} ex_state) = None \<and>
   ly_errno (snd (lyd_parse_xml ex_env (Some ex_ctx) (Some (ex_root [ex_xml_unknown])) {} ex_state))
     = LY_EVALID"
  by (simp add: lyd_parse_xml_def lyd_parse_xml_'_def xml_parse_data_head_def find_schema_def
      ly_ctx_get_module_by_ns_def LOGERR_def ex_state_def ex_mod_m_def ex_xml2json_def ex_parse_value_def ex_env_def ex_ns_m_def ex_ctx_def ex_leaf_v_def union_subtypes_def ex_leaflist_x_def ex_ns_other_def ex_xml_unknown_def ex_root_def)

text \<open>
  C4, amended. With no option set, when the namespace of every top-level element is owned
  by no module of the context, \<^verbatim>\<open>xml_parse_data\<close> skips each of these elements without an
  error (return code 0, no node, the state as it was), and \<^verbatim>\<open>lyd_parse_xml\<close> returns null
  and, since no node was built, stores \<^verbatim>\<open>LY_EVALID\<close> in \<^verbatim>\<open>ly_errno\<close>; nothing else of
  the state changes.
\<close>

theorem lax_unknown_namespace_no_tree:
  assumes "\<forall>x\<in>set (xml_child rt). \<exists>n xns. xml_ns x = Some n \<and> ns_value n = Some xns \<and>
        (\<forall>m\<in>set (models c). module_ns (fst m) \<noteq> Some xns)"
  shows "(\<forall>x\<in>set (xml_child rt). xml_parse_data env c x None None [] {} s = ((0, None), s)) \<and>
         lyd_parse_xml env (Some c) (Some rt) {} s = (None, s\<lparr>ly_errno := LY_EVALID\<rparr>)"
proof
  show "\<forall>x\<in>set (xml_child rt). xml_parse_data env c x None None [] {} s = ((0, None), s)"
    using assms unknown_root_skipped by blast
  show "lyd_parse_xml env (Some c) (Some rt) {} s = (None, s\<lparr>ly_errno := LY_EVALID\<rparr>)"
    by (simp add: lyd_parse_xml_def lyd_parse_xml_'_def LOGERR_def lax_loop_unknown[OF assms])
qed

theorem lax_unknown_namespace_no_tree_witness:
  "xml_child (ex_root [ex_xml_unknown]) = [ex_xml_unknown] \<and>
   xml_ns ex_xml_unknown = Some ex_ns_other \<and> ns_value ex_ns_other = Some ''urn:other'' \<and>
   models ex_ctx = [(ex_mod_m, [ex_leaf_v, ex_leaflist_x])] \<and>
   module_ns ex_mod_m \<noteq> Some ''urn:other'' \<and>
   xml_parse_data ex_env ex_ctx ex_xml_unknown None None [] {} ex_state = ((0, None), ex_state) \<and>
   lyd_parse_xml ex_env (Some ex_ctx) (Some (ex_root [ex_xml_unknown])) {} ex_state
     = (None, ex_state\<lparr>ly_errno := LY_EVALID\<rparr>)"
proof -
  have c: "xml_child (ex_root [ex_xml_unknown]) = [ex_xml_unknown]" by (simp add: ex_root_def)
  have n: "xml_ns ex_xml_unknown = Some ex_ns_other" by (simp add: ex_xml_unknown_def)
  have v: "ns_value ex_ns_other = Some ''urn:other''" by (simp add: ex_ns_other_def)
  have m: "models ex_ctx = [(ex_mod_m, [ex_leaf_v, ex_leaflist_x])]" by (simp add: ex_ctx_def)
  have d: "module_ns ex_mod_m \<noteq> Some ''urn:other''" by (simp add: ex_mod_m_def)
  have h: "\<forall>x\<in>set (xml_child (ex_root [ex_xml_unknown])). \<exists>n xns. xml_ns x = Some n \<and>
      ns_value n = Some xns \<and> (\<forall>m\<in>set (models ex_ctx). module_ns (fst m) \<noteq> Some xns)"
    using n v d by (simp add: c m)
  from lax_unknown_namespace_no_tree [OF h, of ex_env ex_state] c n v m d show ?thesis by simp
qed

lemma insert_attrs_counted:
  "i \<noteq> 0 \<Longrightarrow> insert_attrs sch attrs i =
     (if yang_attrs ''insert'' attrs = [] then Inr i
      else Inl (if sflags sch AND LYS_USERORDERED = 0 then LYE_INATTR else LYE_TOOMANY))"
  by (induction attrs) (auto simp: yang_attrs_def)

lemma insert_attrs_first:
  "insert_attrs sch attrs 0 =
     (case yang_attrs ''insert'' attrs of
        [] \<Rightarrow> Inr 0
      | a # rest \<Rightarrow>
          if sflags sch AND LYS_USERORDERED = 0 then Inl LYE_INATTR
          else if attr_value a = ''first'' \<or> attr_value a = ''last''
          then (if rest = [] then Inr 1 else Inl LYE_TOOMANY)
          else if attr_value a = ''before'' \<or> attr_value a = ''after''
          then (if rest = [] then Inr 2 else Inl LYE_TOOMANY)
          else Inl LYE_INARG)"
proof (induction attrs)
  case Nil
  show ?case by (simp add: yang_attrs_def)
next
  case (Cons a attrs)
  show ?case
  proof (cases "attr_type a = LYXML_ATTR_STD \<and> attr_ns a = Some LY_NSYANG \<and> attr_name a = ''insert''")
    case False
    with Cons show ?thesis by (auto simp: yang_attrs_def)
  next
    case True
    then have y: "yang_attrs ''insert'' (a # attrs) = a # yang_attrs ''insert'' attrs"
      by (simp add: yang_attrs_def)
    from True show ?thesis
      unfolding y by (simp add: insert_attrs_counted)
  qed
qed

lemma value_attrs_counted:
  "value_attrs attrs i =
     (if yang_attrs ''value'' attrs = [] then Inr i
      else if i < 2 then Inl LYE_INATTR
      else Inr (i + int (length (yang_attrs ''value'' attrs))))"
  by (induction attrs arbitrary: i) (auto simp: yang_attrs_def)

lemma length_one: "xs \<noteq> [] \<Longrightarrow> \<not> Suc 0 < length xs \<Longrightarrow> length xs = Suc 0"
  by (cases xs) auto

lemma edit_attrs_check_grammar:
  "(edit_attrs_check sch attrs = None) = edit_grammar_ok sch attrs"
  by (auto simp: edit_attrs_check_def edit_grammar_ok_def insert_attrs_first value_attrs_counted
      intro: length_one split: list.splits sum.splits if_splits)

lemma head_edit_violation:
  assumes "LYD_OPT_EDIT \<in> options" "xml_ns xml = Some n" "ns_value n = Some xns"
    "find_schema ctx (xml_name xml) xns schema_parent parent = Some sch"
    "edit_attrs_check sch (xml_attr xml) = Some e"
  shows "xml_parse_data env ctx xml schema_parent parent prev options s = ((- 1, None), LOGVAL e s)"
  using assms by (cases xml) (simp add: xml_parse_data_head_def)

lemma schema_union:
  "schema (snd (fst (xml_get_value_union env xml resolve sch at vs v vt tys s))) = sch"
  by (induction tys arbitrary: vs v vt s)
     (auto simp: xml_get_value_union.simps split: prod.splits option.splits)

lemma schema_get_value:
  "schema (snd (fst (xml_get_value env node xml options s))) = schema node"
proof (cases node)
  case (Lyd_node_leaf_list sch at vs0 v vt0)
  have u: "\<And>r leaf s2 a b c d e f g. xml_get_value_union env xml a sch b c d e f g = ((r, leaf), s2)
     \<Longrightarrow> schema leaf = sch"
    using schema_union by (metis fst_conv snd_conv)
  show ?thesis using Lyd_node_leaf_list
    by (auto simp: Let_def split: prod.splits option.splits bool.splits dest: u)
qed simp_all

lemma schema_set_attr: "schema (set_attr n a) = schema n"
  by (cases n) simp_all

lemma schema_add_child: "schema (add_child n c) = schema n"
  by (cases n) simp_all

lemma schema_new_node: "new_node sch = Some node \<Longrightarrow> schema node = sch"
  by (auto simp: new_node_def split: if_splits)

lemma schema_get_value': "xml_get_value env node xml options s = ((r, leaf), s') \<Longrightarrow> schema leaf = schema node"
  using schema_get_value [of env node xml options s] by simp

lemma head_node:
  assumes "xml_parse_data_head env ctx xml sp parent prev options s = Inr (node, s1)"
    "xml_ns xml = Some n" "ns_value n = Some ns"
    "find_schema ctx (xml_name xml) ns sp parent = Some sch"
  shows "schema node = sch"
  using assms
  by (auto simp: xml_parse_data_head_def schema_set_attr split: option.splits prod.splits if_splits bool.splits
      dest!: schema_new_node schema_get_value')

lemma head_checked:
  assumes "xml_parse_data_head env ctx xml sp parent prev options s = Inr (node, s1)"
    "xml_ns xml = Some n" "ns_value n = Some ns"
    "find_schema ctx (xml_name xml) ns sp parent = Some sch" "LYD_OPT_EDIT \<in> options"
  shows "edit_attrs_check sch (xml_attr xml) = None"
  using assms
  by (auto simp: xml_parse_data_head_def split: option.splits prod.splits if_splits bool.splits)

lemma head_found_code:
  assumes "xml_parse_data_head env ctx xml sp parent prev options s = Inl ((r, res), s1)"
    "xml_ns xml = Some n" "ns_value n = Some ns"
    "find_schema ctx (xml_name xml) ns sp parent = Some sch"
  shows "r = - 1"
  using assms
  by (auto simp: xml_parse_data_head_def split: option.splits prod.splits if_splits bool.splits)

lemma children_all:
  "fst (fst (xml_parse_children env ctx node options cs s)) = 0 \<Longrightarrow>
   \<forall>c\<in>set cs. \<exists>node' s'. schema node' = schema node \<and>
     fst (fst (xml_parse_data env ctx c None (Some node') (lyd_children node')
       (if snodetype (schema node) = LYS_RPC \<or> snodetype (schema node) = LYS_NOTIF
        then {} else options) s')) = 0"
proof (induction cs arbitrary: node s)
  case Nil
  then show ?case by simp
next
  case (Cons c cs)
  obtain r diter s1 where p: "xml_parse_data env ctx c None (Some node) (lyd_children node)
       (if snodetype (schema node) = LYS_RPC \<or> snodetype (schema node) = LYS_NOTIF
        then {} else options) s = ((r, diter), s1)"
    by (metis surj_pair)
  with Cons.prems have r: "r = 0" by (auto split: if_splits)
  let ?n = "case diter of None \<Rightarrow> node | Some d \<Rightarrow> add_child node d"
  have sn: "schema ?n = schema node" by (simp add: schema_add_child split: option.splits)
  from Cons.prems p r have "fst (fst (xml_parse_children env ctx ?n options cs s1)) = 0" by simp
  from Cons.IH [OF this] sn have rest: "\<forall>c\<in>set cs. \<exists>node' s'. schema node' = schema node \<and>
     fst (fst (xml_parse_data env ctx c None (Some node') (lyd_children node')
       (if snodetype (schema node) = LYS_RPC \<or> snodetype (schema node) = LYS_NOTIF
        then {} else options) s')) = 0" by simp
  from p r have "fst (fst (xml_parse_data env ctx c None (Some node) (lyd_children node)
       (if snodetype (schema node) = LYS_RPC \<or> snodetype (schema node) = LYS_NOTIF
        then {} else options) s)) = 0" by simp
  then have "\<exists>node' s'. schema node' = schema node \<and>
     fst (fst (xml_parse_data env ctx c None (Some node') (lyd_children node')
       (if snodetype (schema node) = LYS_RPC \<or> snodetype (schema node) = LYS_NOTIF
        then {} else options) s')) = 0" by blast
  with rest show ?case by simp
qed

lemma rpc_children_options:
  "snodetype (schema node) = LYS_RPC \<or> snodetype (schema node) = LYS_NOTIF \<Longrightarrow>
   xml_parse_children env ctx node options cs s = xml_parse_children env ctx node {} cs s"
proof (induction cs arbitrary: node s)
  case Nil
  then show ?case by simp
next
  case (Cons c cs)
  have "\<And>diter. xml_parse_children env ctx (case diter of None \<Rightarrow> node | Some d \<Rightarrow> add_child node d) options cs
          = xml_parse_children env ctx (case diter of None \<Rightarrow> node | Some d \<Rightarrow> add_child node d) {} cs"
    using Cons.prems by (intro ext Cons.IH) (simp add: schema_add_child split: option.splits)
  with Cons.prems show ?case by (auto split: prod.splits)
qed

lemma parse_edit_kept:
  "LYD_OPT_EDIT \<in> options \<Longrightarrow>
   fst (fst (xml_parse_data env ctx xml sp parent prev options s)) = 0 \<Longrightarrow>
   edit_kept (\<lambda>n ns. find_schema ctx n ns sp parent) xml"
proof (induction xml arbitrary: sp parent prev s)
  case (Lyxml_elem xname xns content attrs children)
  let ?xml = "Lyxml_elem xname xns content attrs children"
  show ?case
  proof (cases "case xns of None \<Rightarrow> None | Some n \<Rightarrow> ns_value n")
    case None
    then show ?thesis by simp
  next
    case (Some ns)
    then obtain n where n: "xns = Some n" "ns_value n = Some ns" by (auto split: option.splits)
    show ?thesis
    proof (cases "find_schema ctx xname ns sp parent")
      case None
      with Some show ?thesis by simp
    next
      case (Some sch)
      note f = this
      from n f have f': "xml_ns ?xml = Some n" "ns_value n = Some ns"
        "find_schema ctx (xml_name ?xml) ns sp parent = Some sch" by simp_all
      obtain node s1 where h: "xml_parse_data_head env ctx ?xml sp parent prev options s = Inr (node, s1)"
      proof (cases "xml_parse_data_head env ctx ?xml sp parent prev options s")
        case (Inl a)
        obtain r res s1 where "a = ((r, res), s1)" by (metis surj_pair)
        with Inl head_found_code [OF _ f'] have "r = - 1" by blast
        with Inl \<open>a = ((r, res), s1)\<close> Lyxml_elem.prems(2) show ?thesis by simp
      next
        case (Inr b)
        then show ?thesis using that by (cases b) auto
      qed
      have sn: "schema node = sch" by (rule head_node [OF h f'])
      have g: "edit_grammar_ok sch attrs"
        using head_checked [OF h f' Lyxml_elem.prems(1)] by (simp add: edit_attrs_check_grammar)
      have k: "list_all (edit_kept (\<lambda>n ns. xml_data_search_schemanode n ns (schild sch))) children"
        if hc: "havechildren sch" and nr: "snodetype sch \<noteq> LYS_RPC" "snodetype sch \<noteq> LYS_NOTIF"
      proof (cases "children = []")
        case True
        then show ?thesis by simp
      next
        case False
        obtain r node' s2 where c: "xml_parse_children env ctx node options children s1 = ((r, node'), s2)"
          by (metis surj_pair)
        with h hc sn False Lyxml_elem.prems(2) have "r = 0"
          by (auto split: if_splits)
        with c have "fst (fst (xml_parse_children env ctx node options children s1)) = 0" by simp
        from children_all [OF this] sn nr
        have a: "\<forall>c\<in>set children. \<exists>node' s'. schema node' = sch \<and>
           fst (fst (xml_parse_data env ctx c None (Some node') (lyd_children node') options s')) = 0"
          by simp
        have "edit_kept (\<lambda>n ns. xml_data_search_schemanode n ns (schild sch)) c" if "c \<in> set children" for c
        proof -
          from a that obtain node' s' where p: "schema node' = sch"
            "fst (fst (xml_parse_data env ctx c None (Some node') (lyd_children node') options s')) = 0"
            by blast
          from Lyxml_elem.IH [OF that Lyxml_elem.prems(1) p(2)] p(1)
          show ?thesis by (simp add: find_schema_def)
        qed
        then show ?thesis by (simp add: list_all_iff)
      qed
      from n f g k show ?thesis by simp
    qed
  qed
qed

lemma loop_all:
  "fst (fst (lyd_parse_xml_loop env ctx parent options xs result s)) = False \<Longrightarrow>
   \<forall>x\<in>set xs. \<exists>prev s'. fst (fst (xml_parse_data env ctx x parent None prev options s')) = 0"
proof (induction xs arbitrary: result s)
  case Nil
  then show ?case by simp
next
  case (Cons x xs)
  obtain r iter s1 where p: "xml_parse_data env ctx x parent None result options s = ((r, iter), s1)"
    by (metis surj_pair)
  with Cons.prems have r: "r = 0" by (auto split: if_splits)
  with Cons.prems p have "fst (fst (lyd_parse_xml_loop env ctx parent options xs
       (case iter of None \<Rightarrow> result | Some n \<Rightarrow> result @ [n]) s1)) = False" by simp
  from Cons.IH [OF this] have rest: "\<forall>x\<in>set xs. \<exists>prev s'.
     fst (fst (xml_parse_data env ctx x parent None prev options s')) = 0" .
  from p r have "\<exists>prev s'. fst (fst (xml_parse_data env ctx x parent None prev options s')) = 0"
    by (metis fst_conv)
  with rest show ?case by simp
qed

lemma parse_xml_edit_kept:
  assumes "LYD_OPT_EDIT \<in> options"
    "fst (lyd_parse_xml_' env (Some ctx) sp (Some root) options s) = Some tree"
  shows "list_all (edit_kept (\<lambda>n ns. find_schema ctx n ns sp None)) (xml_child root)"
proof -
  from assms(2) have "fst (fst (lyd_parse_xml_loop env ctx sp options (xml_child root) [] s)) = False"
    by (auto simp: lyd_parse_xml_'_def split: prod.splits bool.splits if_splits option.splits)
  from loop_all [OF this] parse_edit_kept [OF assms(1)] show ?thesis
    unfolding list_all_iff by blast
qed

text \<open>
  C5, against the claim as stated. The element \<open>x\<close> with the insert attribute
  \<open>middle\<close>, which is none of first, last, before and after, is a child of the rpc
  element \<open>r\<close>. \<^verbatim>\<open>lyd_parse_xml\<close> with the option \<^verbatim>\<open>LYD_OPT_EDIT\<close> returns the tree with the
  node of \<open>x\<close> and logs nothing: the children of an rpc are parsed with \<^verbatim>\<open>options\<close> 0
  (line 373), and the check of lines 214 to 267 is under \<^verbatim>\<open>options & LYD_OPT_EDIT\<close>.
\<close>

theorem edit_grammar_not_enforced_below_rpc:
  "lyd_parse_xml ex_env (Some ex_ctx_rpc)
       (Some (ex_root [ex_xml_r [ex_xml_x [ex_attr_insert ''middle'']]])) {LYD_OPT_EDIT} ex_state
     = (Some [Lyd_node ex_rpc_r [] [ex_x [] ''b'']], ex_state) \<and>
   \<not> edit_grammar_ok ex_leaflist_x (xml_attr (ex_xml_x [ex_attr_insert ''middle'']))"
  by (simp add: lyd_parse_xml_def lyd_parse_xml_'_def xml_parse_data_head_def xml_parse_data_tail_def
      find_schema_def new_node_def havechildren_def resolve_now_def path_base_def UINT_MAX_def
      LOGLINE_def EXIT_SUCCESS_def EXIT_FAILURE_def ex_state_def ex_mod_m_def ex_parse_value_def
      ex_env_def ex_ns_m_def ex_leaflist_x_def ex_root_def ex_ns_other_def ex_input_r_def
      ex_rpc_r_def ex_ctx_rpc_def ex_xml_r_def ex_xml_x_def ex_attr_insert_def ex_x_def
      ly_ctx_get_module_by_ns_def LY_NSYANG_def edit_attrs_check_def edit_grammar_ok_def
      yang_attrs_def LYS_USERORDERED_def)

text \<open>
  C5, amended. The check of the attributes passes exactly for the elements that keep the
  edit-attribute grammar (at most one insert attribute of the YANG namespace; with one,
  a schema node ordered by user and a value among first, last, before, after; value
  attributes only with before or after, and then exactly one). A call of \<^verbatim>\<open>xml_parse_data\<close>
  with the option \<^verbatim>\<open>LYD_OPT_EDIT\<close> on an element whose schema node is found and that breaks
  the grammar logs a validation code and returns -1 without a node. When \<^verbatim>\<open>lyd_parse_xml_\<close>
  with this option returns a tree, every element of the document that has a schema node and
  is not below an rpc or a notification element keeps the grammar. The children of an rpc
  or a notification node are parsed as with \<^verbatim>\<open>options\<close> 0, whatever the options of the
  call, so that their edit attributes are not checked.
\<close>

theorem edit_grammar_enforced_outside_rpc:
  "(edit_attrs_check sch attrs = None) = edit_grammar_ok sch attrs \<and>
   (LYD_OPT_EDIT \<in> options \<and> xml_ns xml = Some n \<and> ns_value n = Some xns \<and>
    find_schema ctx (xml_name xml) xns schema_parent parent = Some sch' \<and>
    \<not> edit_grammar_ok sch' (xml_attr xml) \<longrightarrow>
      (\<exists>e. xml_parse_data env ctx xml schema_parent parent prev options s = ((- 1, None), LOGVAL e s))) \<and>
   (LYD_OPT_EDIT \<in> options \<and>
    fst (lyd_parse_xml_' env (Some ctx) schema_parent (Some root) options s) = Some tree \<longrightarrow>
      list_all (edit_kept (\<lambda>n ns. find_schema ctx n ns schema_parent None)) (xml_child root)) \<and>
   (snodetype (schema node) = LYS_RPC \<or> snodetype (schema node) = LYS_NOTIF \<longrightarrow>
      xml_parse_children env ctx node options cs s = xml_parse_children env ctx node {} cs s)"
proof (intro conjI impI)
  show "(edit_attrs_check sch attrs = None) = edit_grammar_ok sch attrs"
    by (rule edit_attrs_check_grammar)
next
  assume a: "LYD_OPT_EDIT \<in> options \<and> xml_ns xml = Some n \<and> ns_value n = Some xns \<and>
    find_schema ctx (xml_name xml) xns schema_parent parent = Some sch' \<and>
    \<not> edit_grammar_ok sch' (xml_attr xml)"
  then have "edit_attrs_check sch' (xml_attr xml) \<noteq> None"
    by (simp add: edit_attrs_check_grammar)
  then obtain e where "edit_attrs_check sch' (xml_attr xml) = Some e" by blast
  with a have "xml_parse_data env ctx xml schema_parent parent prev options s = ((- 1, None), LOGVAL e s)"
    by (intro head_edit_violation) auto
  then show "\<exists>e. xml_parse_data env ctx xml schema_parent parent prev options s = ((- 1, None), LOGVAL e s)"
    ..
next
  assume "LYD_OPT_EDIT \<in> options \<and>
    fst (lyd_parse_xml_' env (Some ctx) schema_parent (Some root) options s) = Some tree"
  then show "list_all (edit_kept (\<lambda>n ns. find_schema ctx n ns schema_parent None)) (xml_child root)"
    by (intro parse_xml_edit_kept) auto
next
  assume "snodetype (schema node) = LYS_RPC \<or> snodetype (schema node) = LYS_NOTIF"
  then show "xml_parse_children env ctx node options cs s = xml_parse_children env ctx node {} cs s"
    by (rule rpc_children_options)
qed

theorem edit_grammar_enforced_outside_rpc_witness:
  "LYD_OPT_EDIT \<in> {LYD_OPT_EDIT} \<and> xml_ns (ex_xml_x [ex_attr_insert ''before'']) = Some ex_ns_m \<and>
   ns_value ex_ns_m = Some ''urn:m'' \<and>
   find_schema ex_ctx_rpc (xml_name (ex_xml_x [ex_attr_insert ''before''])) ''urn:m'' None None
     = Some ex_leaflist_x \<and>
   \<not> edit_grammar_ok ex_leaflist_x (xml_attr (ex_xml_x [ex_attr_insert ''before''])) \<and>
   (\<exists>e. xml_parse_data ex_env ex_ctx_rpc (ex_xml_x [ex_attr_insert ''before'']) None None []
           {LYD_OPT_EDIT} ex_state = ((- 1, None), LOGVAL e ex_state)) \<and>
   edit_attrs_check ex_leaflist_x [ex_attr_insert ''before'', ex_attr_value ''a''] = None \<and>
   fst (lyd_parse_xml_' ex_env (Some ex_ctx_rpc) None
          (Some (ex_root [ex_xml_x [ex_attr_insert ''first''],
                          ex_xml_r [ex_xml_x [ex_attr_insert ''middle'']]]))
          {LYD_OPT_EDIT} ex_state)
     = Some [ex_x [] ''b'', Lyd_node ex_rpc_r [] [ex_x [] ''b'']] \<and>
   list_all (edit_kept (\<lambda>n ns. find_schema ex_ctx_rpc n ns None None))
     (xml_child (ex_root [ex_xml_x [ex_attr_insert ''first''],
                          ex_xml_r [ex_xml_x [ex_attr_insert ''middle'']]])) \<and>
   snodetype (schema (Lyd_node ex_rpc_r [] [])) = LYS_RPC \<and>
   xml_parse_children ex_env ex_ctx_rpc (Lyd_node ex_rpc_r [] []) {LYD_OPT_EDIT}
       [ex_xml_x [ex_attr_insert ''middle'']] ex_state
     = xml_parse_children ex_env ex_ctx_rpc (Lyd_node ex_rpc_r [] []) {}
         [ex_xml_x [ex_attr_insert ''middle'']] ex_state"
proof -
  let ?xml = "ex_xml_x [ex_attr_insert ''before'']"
  let ?root = "ex_root [ex_xml_x [ex_attr_insert ''first''],
                        ex_xml_r [ex_xml_x [ex_attr_insert ''middle'']]]"
  let ?tree = "[ex_x [] ''b'', Lyd_node ex_rpc_r [] [ex_x [] ''b'']]"
  have e: "LYD_OPT_EDIT \<in> {LYD_OPT_EDIT}" by simp
  have n: "xml_ns ?xml = Some ex_ns_m" by (simp add: ex_xml_x_def)
  have v: "ns_value ex_ns_m = Some ''urn:m''" by (simp add: ex_ns_m_def)
  have f: "find_schema ex_ctx_rpc (xml_name ?xml) ''urn:m'' None None = Some ex_leaflist_x"
    by (simp add: find_schema_def ex_mod_m_def ex_ctx_rpc_def ex_leaflist_x_def ex_xml_x_def)
  have g: "\<not> edit_grammar_ok ex_leaflist_x (xml_attr ?xml)"
    by (simp add: edit_grammar_ok_def yang_attrs_def ex_leaflist_x_def ex_attr_insert_def
        ex_xml_x_def LYS_USERORDERED_def)
  have g2: "edit_grammar_ok ex_leaflist_x [ex_attr_insert ''before'', ex_attr_value ''a'']"
    by (simp add: edit_grammar_ok_def yang_attrs_def ex_leaflist_x_def ex_attr_insert_def
        ex_attr_value_def LYS_USERORDERED_def)
  have p: "fst (lyd_parse_xml_' ex_env (Some ex_ctx_rpc) None (Some ?root) {LYD_OPT_EDIT} ex_state)
     = Some ?tree"
    by (simp add: lyd_parse_xml_'_def xml_parse_data_head_def xml_parse_data_tail_def
        find_schema_def new_node_def havechildren_def resolve_now_def path_base_def UINT_MAX_def
        LOGLINE_def EXIT_SUCCESS_def EXIT_FAILURE_def ex_state_def ex_mod_m_def ex_parse_value_def
        ex_env_def ex_ns_m_def ex_leaflist_x_def ex_root_def ex_ns_other_def ex_input_r_def
        ex_rpc_r_def ex_ctx_rpc_def ex_xml_r_def ex_xml_x_def ex_attr_insert_def ex_x_def
        ly_ctx_get_module_by_ns_def LY_NSYANG_def edit_attrs_check_def LYS_USERORDERED_def)
  have r: "snodetype (schema (Lyd_node ex_rpc_r [] [])) = LYS_RPC"
    by (simp add: ex_rpc_r_def)
  note t = edit_grammar_enforced_outside_rpc [where sch = ex_leaflist_x
      and attrs = "[ex_attr_insert ''before'', ex_attr_value ''a'']" and options = "{LYD_OPT_EDIT}"
      and xml = ?xml and n = ex_ns_m and xns = "''urn:m''" and ctx = ex_ctx_rpc
      and schema_parent = None and parent = None and sch' = ex_leaflist_x and env = ex_env
      and prev = "[]" and s = ex_state and root = ?root and tree = ?tree
      and node = "Lyd_node ex_rpc_r [] []" and cs = "[ex_xml_x [ex_attr_insert ''middle'']]"]
  from t e n v f g have
    "\<exists>e. xml_parse_data ex_env ex_ctx_rpc ?xml None None [] {LYD_OPT_EDIT} ex_state
           = ((- 1, None), LOGVAL e ex_state)" by blast
  moreover from t g2
  have "edit_attrs_check ex_leaflist_x [ex_attr_insert ''before'', ex_attr_value ''a''] = None"
    by blast
  moreover from t e p
  have "list_all (edit_kept (\<lambda>n ns. find_schema ex_ctx_rpc n ns None None)) (xml_child ?root)"
    by blast
  moreover from t r
  have "xml_parse_children ex_env ex_ctx_rpc (Lyd_node ex_rpc_r [] []) {LYD_OPT_EDIT}
       [ex_xml_x [ex_attr_insert ''middle'']] ex_state
     = xml_parse_children ex_env ex_ctx_rpc (Lyd_node ex_rpc_r [] []) {}
         [ex_xml_x [ex_attr_insert ''middle'']] ex_state"
    by blast
  ultimately show ?thesis using e n v f g p r by blast
qed

lemma freed_free_all: "freed (free_all ns s) = freed s @ ns"
  by (induction ns arbitrary: s) (simp_all add: free_all_def lyd_free_def)

text \<open>
  C6. When the top-level loop has built a non-empty sibling list and
  \<^verbatim>\<open>resolve_unres_data\<close> fails, \<^verbatim>\<open>lyd_parse_xml_\<close> hands every top-level node, and with it
  its subtree, to \<^verbatim>\<open>lyd_free\<close> and returns null. A tree is returned only when the loop
  has ended without an error and the resolution has succeeded.
\<close>

theorem failed_resolution_discards_tree:
  "(lyd_parse_xml_loop env c parent options (xml_child rt) [] s = ((False, result), s1) \<and>
    result \<noteq> [] \<and> resolve_unres_data env result s1 = (None, s2) \<longrightarrow>
      lyd_parse_xml_' env (Some c) parent (Some rt) options s = (None, free_all result s2) \<and>
      freed (free_all result s2) = freed s2 @ result) \<and>
   (lyd_parse_xml_' env ctx parent root options s = (Some tree, s') \<longrightarrow>
      (\<exists>c rt result s1. ctx = Some c \<and> root = Some rt \<and>
         lyd_parse_xml_loop env c parent options (xml_child rt) [] s = ((False, result), s1) \<and>
         resolve_unres_data env result s1 = (Some tree, s')))"
  by (auto simp: lyd_parse_xml_'_def freed_free_all split: option.splits prod.splits bool.splits if_splits)

theorem failed_resolution_discards_tree_witness:
  "lyd_parse_xml_loop ex_env_unresolved ex_ctx None {} (xml_child (ex_root [ex_xml_v])) [] ex_state
     = ((False, [ex_leaf_built]), ex_state) \<and>
   [ex_leaf_built] \<noteq> [] \<and>
   resolve_unres_data ex_env_unresolved [ex_leaf_built] ex_state = (None, ex_state) \<and>
   lyd_parse_xml_' ex_env_unresolved (Some ex_ctx) None (Some (ex_root [ex_xml_v])) {} ex_state
     = (None, free_all [ex_leaf_built] ex_state) \<and>
   freed (free_all [ex_leaf_built] ex_state) = [ex_leaf_built] \<and>
   lyd_parse_xml_' ex_env (Some ex_ctx) None (Some (ex_root [ex_xml_v])) {} ex_state
     = (Some [ex_leaf_built], ex_state) \<and>
   (\<exists>c rt result s1. Some ex_ctx = Some c \<and> Some (ex_root [ex_xml_v]) = Some rt \<and>
      lyd_parse_xml_loop ex_env c None {} (xml_child rt) [] ex_state = ((False, result), s1) \<and>
      resolve_unres_data ex_env result s1 = (Some [ex_leaf_built], ex_state))"
proof -
  have l: "lyd_parse_xml_loop ex_env_unresolved ex_ctx None {} (xml_child (ex_root [ex_xml_v])) [] ex_state
     = ((False, [ex_leaf_built]), ex_state)"
    by (simp add: xml_parse_data_head_def xml_parse_data_tail_def find_schema_def new_node_def
        havechildren_def resolve_now_def path_base_def UINT_MAX_def xml_get_value_union.simps
        EXIT_SUCCESS_def EXIT_FAILURE_def ex_state_def ex_mod_m_def ex_xml2json_def ex_parse_value_def ex_env_def ex_ns_m_def ex_ctx_def ex_leaf_v_def union_subtypes_def ex_leaflist_x_def ex_root_def ex_ns_other_def ex_xml_v_def ex_env_unresolved_def ex_leaf_built_def)
  have r: "resolve_unres_data ex_env_unresolved [ex_leaf_built] ex_state = (None, ex_state)"
    by (simp add: ex_env_unresolved_def)
  have ok: "lyd_parse_xml_' ex_env (Some ex_ctx) None (Some (ex_root [ex_xml_v])) {} ex_state
     = (Some [ex_leaf_built], ex_state)"
    by (simp add: lyd_parse_xml_'_def xml_parse_data_head_def xml_parse_data_tail_def find_schema_def
        new_node_def havechildren_def resolve_now_def path_base_def UINT_MAX_def
        xml_get_value_union.simps EXIT_SUCCESS_def EXIT_FAILURE_def ex_state_def ex_mod_m_def ex_xml2json_def ex_parse_value_def ex_env_def ex_ns_m_def ex_ctx_def ex_leaf_v_def union_subtypes_def ex_leaflist_x_def ex_root_def ex_ns_other_def ex_xml_v_def ex_env_unresolved_def ex_leaf_built_def)
  note t = failed_resolution_discards_tree [where env = ex_env_unresolved and c = ex_ctx
      and parent = None and options = "{}" and rt = "ex_root [ex_xml_v]" and s = ex_state
      and result = "[ex_leaf_built]" and ?s1.0 = ex_state and ?s2.0 = ex_state]
  note t' = failed_resolution_discards_tree [where env = ex_env and ctx = "Some ex_ctx"
      and parent = None and options = "{}" and root = "Some (ex_root [ex_xml_v])" and s = ex_state
      and tree = "[ex_leaf_built]" and s' = ex_state]
  from t l r have a: "lyd_parse_xml_' ex_env_unresolved (Some ex_ctx) None (Some (ex_root [ex_xml_v])) {} ex_state
     = (None, free_all [ex_leaf_built] ex_state) \<and>
     freed (free_all [ex_leaf_built] ex_state) = freed ex_state @ [ex_leaf_built]" by blast
  then have a': "freed (free_all [ex_leaf_built] ex_state) = [ex_leaf_built]"
    by (simp add: ex_state_def)
  from t' ok have b: "\<exists>c rt result s1. Some ex_ctx = Some c \<and> Some (ex_root [ex_xml_v]) = Some rt \<and>
      lyd_parse_xml_loop ex_env c None {} (xml_child rt) [] ex_state = ((False, result), s1) \<and>
      resolve_unres_data ex_env result s1 = (Some [ex_leaf_built], ex_state)" by blast
  from l r a a' ok b show ?thesis by blast
qed

text \<open>
  C10. \<^verbatim>\<open>lyd_parse_output_xml\<close> with a null schema node or one that is no RPC, and
  \<^verbatim>\<open>lyd_parse_xml\<close> with a null context or a null root element, return null with
  \<^verbatim>\<open>ly_errno = LY_EINVAL\<close>; nothing else of the state changes: no node is built, none freed.
\<close>

theorem entry_points_check_arguments:
  "(rpc = None \<or> (\<exists>r. rpc = Some r \<and> snodetype r \<noteq> LYS_RPC) \<longrightarrow>
      lyd_parse_output_xml env ctx_of rpc root options s = (None, s\<lparr>ly_errno := LY_EINVAL\<rparr>)) \<and>
   (ctx = None \<or> root = None \<longrightarrow>
      lyd_parse_xml env ctx root options s = (None, s\<lparr>ly_errno := LY_EINVAL\<rparr>))"
  by (auto simp: lyd_parse_output_xml_def lyd_parse_xml_def lyd_parse_xml_'_def LOGERR_def
      split: option.splits)


theorem entry_points_check_arguments_witness:
  "lyd_parse_output_xml ex_env (\<lambda>m. Some ex_ctx) None (Some (ex_root [ex_xml_v])) {} ex_state
      = (None, ex_state\<lparr>ly_errno := LY_EINVAL\<rparr>) \<and>
   snodetype ex_leaf_v \<noteq> LYS_RPC \<and>
   lyd_parse_output_xml ex_env (\<lambda>m. Some ex_ctx) (Some ex_leaf_v) (Some (ex_root [ex_xml_v])) {} ex_state
      = (None, ex_state\<lparr>ly_errno := LY_EINVAL\<rparr>) \<and>
   lyd_parse_xml ex_env None (Some (ex_root [ex_xml_v])) {} ex_state
      = (None, ex_state\<lparr>ly_errno := LY_EINVAL\<rparr>) \<and>
   lyd_parse_xml ex_env (Some ex_ctx) None {} ex_state = (None, ex_state\<lparr>ly_errno := LY_EINVAL\<rparr>)"
proof -
  have n: "snodetype ex_leaf_v \<noteq> LYS_RPC" by (simp add: ex_leaf_v_def union_subtypes_def)
  note t = entry_points_check_arguments [where env = ex_env and ctx_of = "\<lambda>m. Some ex_ctx"
      and options = "{}" and s = ex_state]
  from t [where rpc = None and root = "Some (ex_root [ex_xml_v])" and ctx = None]
  have 1: "lyd_parse_output_xml ex_env (\<lambda>m. Some ex_ctx) None (Some (ex_root [ex_xml_v])) {} ex_state
      = (None, ex_state\<lparr>ly_errno := LY_EINVAL\<rparr>)"
    and 3: "lyd_parse_xml ex_env None (Some (ex_root [ex_xml_v])) {} ex_state
      = (None, ex_state\<lparr>ly_errno := LY_EINVAL\<rparr>)" by blast+
  from t [where rpc = "Some ex_leaf_v" and root = "Some (ex_root [ex_xml_v])" and ctx = None] n
  have 2: "lyd_parse_output_xml ex_env (\<lambda>m. Some ex_ctx) (Some ex_leaf_v) (Some (ex_root [ex_xml_v])) {} ex_state
      = (None, ex_state\<lparr>ly_errno := LY_EINVAL\<rparr>)" by blast
  from t [where rpc = None and root = None and ctx = "Some ex_ctx"]
  have 4: "lyd_parse_xml ex_env (Some ex_ctx) None {} ex_state = (None, ex_state\<lparr>ly_errno := LY_EINVAL\<rparr>)"
    by blast
  from 1 n 2 3 4 show ?thesis by blast
qed

subsection \<open>The sibling ring\<close>

lemma chain_allocated: "chain h xs \<Longrightarrow> x \<in> set xs \<Longrightarrow> x \<in> allocated h"
  by (induction h xs rule: chain.induct) auto

lemma chain_prev_nth:
  "chain h xs \<Longrightarrow> Suc j < length xs \<Longrightarrow> h_prev h (xs ! Suc j) = Some (xs ! j)"
proof (induction h xs arbitrary: j rule: chain.induct)
  case (3 h x y r)
  then show ?case by (cases j) auto
qed simp_all

lemma chain_next_nth:
  "chain h xs \<Longrightarrow> Suc j < length xs \<Longrightarrow> h_next h (xs ! j) = Some (xs ! Suc j)"
proof (induction h xs arbitrary: j rule: chain.induct)
  case (3 h x y r)
  then show ?case by (cases j) auto
qed simp_all

lemma chain_next_last: "chain h xs \<Longrightarrow> xs \<noteq> [] \<Longrightarrow> h_next h (last xs) = None"
  by (induction h xs rule: chain.induct) auto

lemma chain_cong:
  "chain h xs \<Longrightarrow> allocated h \<subseteq> allocated h' \<Longrightarrow> (\<forall>x\<in>set xs. h_next h' x = h_next h x) \<Longrightarrow>
   (\<forall>x\<in>set (tl xs). h_prev h' x = h_prev h x) \<Longrightarrow> chain h' xs"
  by (induction h xs rule: chain.induct) auto

lemma chain_snoc:
  "chain h xs \<Longrightarrow> xs \<noteq> [] \<Longrightarrow> allocated h \<subseteq> allocated h' \<Longrightarrow> r \<in> allocated h' \<Longrightarrow>
   (\<forall>x\<in>set (butlast xs). h_next h' x = h_next h x) \<Longrightarrow> h_next h' (last xs) = Some r \<Longrightarrow>
   (\<forall>x\<in>set (tl xs). h_prev h' x = h_prev h x) \<Longrightarrow> h_prev h' r = Some (last xs) \<Longrightarrow>
   h_next h' r = None \<Longrightarrow> chain h' (xs @ [r])"
proof (induction h xs rule: chain.induct)
  case (3 h x y r')
  then show ?case by auto
qed auto

lemma first_sibling_walk:
  assumes d: "distinct xs"
    and c: "\<forall>j. Suc j < length xs \<longrightarrow> h_prev h (xs ! Suc j) = Some (xs ! j)"
    and p: "h_prev h (hd xs) = Some (last xs)"
    and a: "set xs \<subseteq> allocated h"
  shows "i < length xs \<Longrightarrow> first_sibling h (last xs) (xs ! i) = Some (hd xs)"
proof (induction i)
  case 0
  then have "xs \<noteq> []" by auto
  then have "xs ! 0 = hd xs" by (simp add: hd_conv_nth)
  moreover have "hd xs \<in> allocated h" using a \<open>xs \<noteq> []\<close> by auto
  ultimately show ?case using p by (subst first_sibling.simps) simp
next
  case (Suc i)
  then have i: "i < length xs" by simp
  have pr: "h_prev h (xs ! Suc i) = Some (xs ! i)" using c Suc.prems by blast
  have "xs ! i \<noteq> xs ! (length xs - 1)"
    using d Suc.prems by (simp add: nth_eq_iff_index_eq)
  moreover have "xs \<noteq> []" using Suc.prems by auto
  ultimately have ne: "xs ! i \<noteq> last xs" by (simp add: last_conv_nth)
  have al: "xs ! Suc i \<in> allocated h" using a Suc.prems by auto
  show ?case
    by (subst first_sibling.simps) (simp add: al pr ne Suc.IH[OF i])
qed

lemma first_sibling_from_last:
  assumes "distinct xs" "xs \<noteq> []"
    and "\<forall>j. Suc j < length xs \<longrightarrow> h_prev h (xs ! Suc j) = Some (xs ! j)"
    and "h_prev h (hd xs) = Some (last xs)"
    and "set xs \<subseteq> allocated h"
  shows "first_sibling h (last xs) (last xs) = Some (hd xs)"
proof -
  have "length xs - 1 < length xs" using assms(2) by simp
  from first_sibling_walk[OF assms(1,3,4,5) this] assms(2) show ?thesis
    by (simp add: last_conv_nth)
qed

lemma chain_next_prev:
  "chain h zs \<Longrightarrow> n \<in> set zs \<Longrightarrow> h_next h n = Some m \<Longrightarrow> h_prev h m = Some n"
  by (induction h zs rule: chain.induct) auto

lemma tl_memD: "x \<in> set (tl xs) \<Longrightarrow> x \<in> set xs"
  by (cases xs) auto

lemma hd_not_in_tl: "distinct xs \<Longrightarrow> xs \<noteq> [] \<Longrightarrow> hd xs \<notin> set (tl xs)"
  by (cases xs) auto

lemma last_not_in_butlast: "distinct xs \<Longrightarrow> xs \<noteq> [] \<Longrightarrow> last xs \<notin> set (butlast xs)"
  by (metis append_butlast_last_id distinct_butlast not_distinct_conv_prefix snoc_eq_iff_butlast)

lemma link_in_heap:
  assumes fresh: "result \<notin> allocated h"
      and par: "case parent of None \<Rightarrow> True | Some p \<Rightarrow> p \<in> allocated h"
      and sib: "xs = [] \<or> ring h xs"
  shows "\<exists>h'. link_in h result parent (if xs = [] then None else Some (last xs)) = Some h' \<and>
           allocated h' = insert result (allocated h) \<and>
           h_next h' = (if xs = [] then (h_next h)(result := None)
                        else (h_next h)(result := None, last xs := Some result)) \<and>
           h_prev h' = (if xs = [] then (h_prev h)(result := Some result)
                        else (h_prev h)(result := Some (last xs), hd xs := Some result))"
proof (cases "xs = []")
  case True
  with par show ?thesis
    by (auto simp: link_in_def calloc_def Let_def split: option.splits)
next
  case False
  with sib have r: "ring h xs" by simp
  then have sub: "set xs \<subseteq> allocated h" by (auto simp: ring_def dest: chain_allocated)
  with fresh have nin: "result \<notin> set xs" by auto
  have last_in: "last xs \<in> set xs" and hd_in: "hd xs \<in> set xs" using False by simp_all
  have fs: "first_sibling hx (last xs) (last xs) = Some (hd xs)"
    if "allocated hx = insert result (allocated h)"
       "h_prev hx = (h_prev h)(result := Some (last xs))" for hx
  proof (rule first_sibling_from_last)
    show "distinct xs" "xs \<noteq> []" using r by (simp_all add: ring_def)
    show "\<forall>j. Suc j < length xs \<longrightarrow> h_prev hx (xs ! Suc j) = Some (xs ! j)"
    proof (intro allI impI)
      fix j assume j: "Suc j < length xs"
      then have "xs ! Suc j \<noteq> result" using nin by (metis nth_mem)
      moreover have "h_prev h (xs ! Suc j) = Some (xs ! j)"
        using r j by (simp add: ring_def chain_prev_nth)
      ultimately show "h_prev hx (xs ! Suc j) = Some (xs ! j)" by (simp add: that)
    qed
    show "h_prev hx (hd xs) = Some (last xs)"
      using r nin hd_in by (auto simp: ring_def that)
    show "set xs \<subseteq> allocated hx" using sub by (auto simp: that)
  qed
  have la: "last xs \<in> allocated h" using sub last_in by auto
  have ne: "last xs \<noteq> result" using nin last_in by auto
  show ?thesis
  proof (cases parent)
    case None
    with False la ne show ?thesis
      by (simp add: link_in_def calloc_def Let_def fs fun_upd_twist)
  next
    case (Some p)
    with par have "p \<in> allocated h" by simp
    with Some False la ne show ?thesis
      by (simp add: link_in_def calloc_def Let_def fs fun_upd_twist)
  qed
qed

lemma link_in_keeps_rings:
  assumes fresh: "result \<notin> allocated h"
      and par: "case parent of None \<Rightarrow> True | Some p \<Rightarrow> p \<in> allocated h"
      and sib: "xs = [] \<or> ring h xs"
  shows "\<exists>h'. link_in h result parent (if xs = [] then None else Some (last xs)) = Some h' \<and>
           ring h' (xs @ [result]) \<and>
           h_prev h' (hd (xs @ [result])) = Some result \<and>
           (xs = [] \<longrightarrow> h_prev h' result = Some result) \<and>
           (\<forall>n\<in>set (xs @ [result]). \<forall>m. h_next h' n = Some m \<longrightarrow> h_prev h' m = Some n) \<and>
           (\<forall>ys. ring h ys \<and> set ys \<inter> set xs = {} \<longrightarrow> ring h' ys)"
proof -
  from link_in_heap[OF assms] obtain h' where
    l: "link_in h result parent (if xs = [] then None else Some (last xs)) = Some h'"
    and al: "allocated h' = insert result (allocated h)"
    and nx: "h_next h' = (if xs = [] then (h_next h)(result := None)
                        else (h_next h)(result := None, last xs := Some result))"
    and pv: "h_prev h' = (if xs = [] then (h_prev h)(result := Some result)
                        else (h_prev h)(result := Some (last xs), hd xs := Some result))"
    by blast
  have sub: "set xs \<subseteq> allocated h" using sib by (auto simp: ring_def dest: chain_allocated)
  with fresh have nin: "result \<notin> set xs" by auto
  have ring': "ring h' (xs @ [result])"
  proof (cases "xs = []")
    case True
    then show ?thesis by (simp add: ring_def al nx pv)
  next
    case False
    with sib have r: "ring h xs" by simp
    then have d: "distinct xs" and c: "chain h xs" by (simp_all add: ring_def)
    have hl: "hd xs \<noteq> result" "last xs \<noteq> result" using nin False by auto
    have "chain h' (xs @ [result])"
    proof (rule chain_snoc[OF c False])
      show "allocated h \<subseteq> allocated h'" by (auto simp: al)
      show "result \<in> allocated h'" by (simp add: al)
      show "\<forall>x\<in>set (butlast xs). h_next h' x = h_next h x"
        using last_not_in_butlast[OF d False] nin False
        by (auto simp: nx dest: in_set_butlastD)
      show "h_next h' (last xs) = Some result" using False by (simp add: nx)
      show "\<forall>x\<in>set (tl xs). h_prev h' x = h_prev h x"
        using hd_not_in_tl[OF d False] nin False
        by (auto simp: pv dest: tl_memD)
      show "h_prev h' result = Some (last xs)" using False hl by (simp add: pv)
      show "h_next h' result = None" using False hl by (simp add: nx)
    qed
    then show ?thesis using False d nin by (simp add: ring_def pv)
  qed
  have first: "h_prev h' (hd (xs @ [result])) = Some result"
    using ring' by (simp add: ring_def)
  have single: "xs = [] \<longrightarrow> h_prev h' result = Some result" by (simp add: pv)
  have np: "\<forall>n\<in>set (xs @ [result]). \<forall>m. h_next h' n = Some m \<longrightarrow> h_prev h' m = Some n"
    using ring' chain_next_prev unfolding ring_def by blast
  have frame: "\<forall>ys. ring h ys \<and> set ys \<inter> set xs = {} \<longrightarrow> ring h' ys"
  proof (intro allI impI)
    fix ys assume a: "ring h ys \<and> set ys \<inter> set xs = {}"
    then have ry: "ring h ys" and dj: "set ys \<inter> set xs = {}" by simp_all
    have suby: "set ys \<subseteq> allocated h" using ry by (auto simp: ring_def dest: chain_allocated)
    with fresh have ny: "result \<notin> set ys" by auto
    have out: "x \<noteq> result \<and> (xs \<noteq> [] \<longrightarrow> x \<noteq> last xs \<and> x \<noteq> hd xs)" if "x \<in> set ys" for x
      using that ny dj by (auto dest: last_in_set hd_in_set)
    have "chain h' ys"
    proof (rule chain_cong)
      show "chain h ys" using ry by (simp add: ring_def)
      show "allocated h \<subseteq> allocated h'" by (auto simp: al)
      show "\<forall>x\<in>set ys. h_next h' x = h_next h x" using out by (auto simp: nx)
      show "\<forall>x\<in>set (tl ys). h_prev h' x = h_prev h x"
        using out by (auto simp: pv dest: tl_memD)
    qed
    moreover have "h_prev h' (hd ys) = h_prev h (hd ys)"
      using out[of "hd ys"] ry by (auto simp: pv ring_def)
    ultimately show "ring h' ys" using ry by (simp add: ring_def)
  qed
  from l ring' first single np frame show ?thesis by blast
qed

lemma link_in_step:
  assumes fresh: "result \<notin> allocated h"
      and par: "case parent of None \<Rightarrow> True | Some p \<Rightarrow> p \<in> allocated h"
      and sib: "xs = [] \<or> ring h xs"
  shows "\<exists>h'. link_in h result parent (if xs = [] then None else Some (last xs)) = Some h' \<and>
           allocated h' = insert result (allocated h) \<and>
           ring h' (xs @ [result]) \<and>
           (\<forall>ys. ring h ys \<and> set ys \<inter> set xs = {} \<longrightarrow> ring h' ys)"
proof -
  from link_in_heap[OF assms] obtain h' where
    l: "link_in h result parent (if xs = [] then None else Some (last xs)) = Some h'"
    and al: "allocated h' = insert result (allocated h)" by blast
  from link_in_keeps_rings[OF assms] l
  have "ring h' (xs @ [result])" "\<forall>ys. ring h ys \<and> set ys \<inter> set xs = {} \<longrightarrow> ring h' ys"
    by auto
  with l al show ?thesis by blast
qed

lemma builder_inv_start: "builder_inv empty_heap (\<lambda>p. [])"
  by (simp add: builder_inv_def empty_heap_def)

lemma builder_inv_link:
  assumes inv: "builder_inv h kids" and fresh: "result \<notin> allocated h"
    and par: "case parent of None \<Rightarrow> True | Some p \<Rightarrow> p \<in> allocated h"
    and l: "link_in h result parent (last_child kids parent) = Some h'"
  shows "builder_inv h' (kids(parent := kids parent @ [result]))"
proof -
  let ?xs = "kids parent"
  from inv have sib: "?xs = [] \<or> ring h ?xs" by (simp add: builder_inv_def)
  from link_in_step[OF fresh par sib] l
  have al: "allocated h' = insert result (allocated h)"
    and r: "ring h' (?xs @ [result])"
    and fr: "\<forall>ys. ring h ys \<and> set ys \<inter> set ?xs = {} \<longrightarrow> ring h' ys"
    by (auto simp: last_child_def)
  have sub: "\<forall>p. set (kids p) \<subseteq> allocated h" using inv by (simp add: builder_inv_def)
  with fresh have nin: "\<forall>p. result \<notin> set (kids p)" by blast
  have dj: "\<forall>p q. p \<noteq> q \<longrightarrow> set (kids p) \<inter> set (kids q) = {}"
    using inv by (simp add: builder_inv_def)
  have cov: "\<forall>n\<in>allocated h. \<exists>p. n \<in> set (kids p)" using inv by (simp add: builder_inv_def)
  have rings: "\<forall>p. kids p = [] \<or> ring h (kids p)" using inv by (simp add: builder_inv_def)
  let ?kids' = "kids(parent := ?xs @ [result])"
  have 1: "\<forall>p. set (?kids' p) \<subseteq> allocated h'" using sub by (auto simp: al)
  have 2: "\<forall>n\<in>allocated h'. \<exists>p. n \<in> set (?kids' p)"
  proof
    fix n assume "n \<in> allocated h'"
    then consider "n = result" | "n \<in> allocated h" by (auto simp: al)
    then show "\<exists>p. n \<in> set (?kids' p)"
    proof cases
      case 1
      then have "n \<in> set (?kids' parent)" by simp
      then show ?thesis ..
    next
      case 2
      with cov obtain p where p: "n \<in> set (kids p)" by blast
      then have "n \<in> set (?kids' p)" by auto
      then show ?thesis ..
    qed
  qed
  have 3: "\<forall>p q. p \<noteq> q \<longrightarrow> set (?kids' p) \<inter> set (?kids' q) = {}"
    using dj nin by auto
  have 4: "\<forall>p. ?kids' p = [] \<or> ring h' (?kids' p)"
  proof
    fix p
    show "?kids' p = [] \<or> ring h' (?kids' p)"
    proof (cases "p = parent")
      case True
      with r show ?thesis by simp
    next
      case False
      with dj have "set (kids p) \<inter> set ?xs = {}" by blast
      with rings fr have "kids p = [] \<or> ring h' (kids p)" by blast
      with False show ?thesis by simp
    qed
  qed
  from 1 2 3 4 show ?thesis unfolding builder_inv_def by blast
qed

lemma builder_invariant: "builder h kids \<Longrightarrow> builder_inv h kids"
proof (induction rule: builder.induct)
  case start
  show ?case by (rule builder_inv_start)
next
  case (link h kids result parent h')
  then show ?case by (intro builder_inv_link)
qed

lemma ring_prev_first: "ring h xs \<Longrightarrow> h_prev h (hd xs) = Some (last xs)"
  by (simp add: ring_def)

lemma ring_next_prev: "ring h xs \<Longrightarrow> n \<in> set xs \<Longrightarrow> h_next h n = Some m \<Longrightarrow> h_prev h m = Some n"
  unfolding ring_def using chain_next_prev by blast

text \<open>
  C7. In every store that the tree builder reaches by its link-ins, the linked nodes are
  the allocated ones and each sibling list is a valid ring: \<^verbatim>\<open>prev\<close> of the first
  sibling points to the last sibling, a node without siblings has \<^verbatim>\<open>prev\<close> pointing to
  itself, and for every node whose \<^verbatim>\<open>next\<close> is not null, \<^verbatim>\<open>prev\<close> of that next node is
  the node. In such a store the link-in of a further fresh node returns (the search for
  the first sibling ends) and gives such a store again.
\<close>

theorem built_sibling_rings_valid:
  assumes b: "builder h kids"
  shows "(\<forall>n. (n \<in> allocated h) = (\<exists>p. n \<in> set (kids p))) \<and>
         (\<forall>p. kids p \<noteq> [] \<longrightarrow>
            ring h (kids p) \<and>
            h_prev h (hd (kids p)) = Some (last (kids p)) \<and>
            (length (kids p) = 1 \<longrightarrow> h_prev h (hd (kids p)) = Some (hd (kids p)))) \<and>
         (\<forall>n\<in>allocated h. \<forall>m. h_next h n = Some m \<longrightarrow> h_prev h m = Some n) \<and>
         (\<forall>result parent. result \<notin> allocated h \<and>
              (case parent of None \<Rightarrow> True | Some p \<Rightarrow> p \<in> allocated h) \<longrightarrow>
              (\<exists>h'. link_in h result parent (last_child kids parent) = Some h' \<and>
                    builder h' (kids(parent := kids parent @ [result]))))"
proof (intro conjI allI impI ballI)
  from builder_invariant[OF b] have inv: "builder_inv h kids" .
  {
    fix n
    from inv show "(n \<in> allocated h) = (\<exists>p. n \<in> set (kids p))"
      unfolding builder_inv_def by blast
  }
  {
    fix p assume ne: "kids p \<noteq> []"
    with inv have r: "ring h (kids p)" by (auto simp: builder_inv_def)
    then show "ring h (kids p)" .
    from r show "h_prev h (hd (kids p)) = Some (last (kids p))" by (rule ring_prev_first)
    {
      assume "length (kids p) = 1"
      then obtain x where "kids p = [x]" by (cases "kids p") auto
      with r show "h_prev h (hd (kids p)) = Some (hd (kids p))" by (simp add: ring_def)
    }
  }
  {
    fix n m assume n: "n \<in> allocated h" and nx: "h_next h n = Some m"
    from inv n obtain p where p: "n \<in> set (kids p)" by (auto simp: builder_inv_def)
    then have "kids p \<noteq> []" by auto
    with inv have "ring h (kids p)" by (auto simp: builder_inv_def)
    from ring_next_prev[OF this p nx] show "h_prev h m = Some n" .
  }
  {
    fix result parent
    assume a: "result \<notin> allocated h \<and> (case parent of None \<Rightarrow> True | Some p \<Rightarrow> p \<in> allocated h)"
    from inv have sib: "kids parent = [] \<or> ring h (kids parent)" by (simp add: builder_inv_def)
    from a link_in_step[OF _ _ sib, of result parent] obtain h' where
      l: "link_in h result parent (last_child kids parent) = Some h'"
      by (auto simp: last_child_def)
    with b a have "builder h' (kids(parent := kids parent @ [result]))"
      by (intro builder.link) auto
    with l show "\<exists>h'. link_in h result parent (last_child kids parent) = Some h' \<and>
                    builder h' (kids(parent := kids parent @ [result]))" by blast
  }
qed


theorem built_sibling_rings_valid_witness:
  "\<exists>h. builder h ((\<lambda>p. [])(None := [1], Some 1 := [2, 3])) \<and>
        allocated h = {1, 2, 3} \<and>
        ring h [1] \<and> h_prev h 1 = Some 1 \<and>
        ring h [2, 3] \<and> h_prev h 2 = Some 3 \<and> h_next h 2 = Some 3 \<and> h_prev h 3 = Some 2"
proof -
  let ?k0 = "(\<lambda>p. []) :: nat option \<Rightarrow> nat list"
  let ?k1 = "?k0(None := [1])"
  let ?k2 = "?k1(Some 1 := [2])"
  let ?k3 = "?k2(Some 1 := [2, 3])"
  have step: "\<exists>h'. builder h' (kids(parent := kids parent @ [result]))"
    if "builder h kids" "result \<notin> allocated h"
       "case parent of None \<Rightarrow> True | Some p \<Rightarrow> p \<in> allocated h"
    for h kids result parent
    using built_sibling_rings_valid [OF that(1)] that(2,3) by blast
  have alloc: "(n \<in> allocated h) = (\<exists>p. n \<in> set (kids p))" if "builder h kids" for h kids n
    using built_sibling_rings_valid [OF that] by blast
  have b0: "builder empty_heap ?k0" by (rule builder.start)
  from step [OF b0, of 1 None] obtain h1 where "builder h1 (?k0(None := ?k0 None @ [1]))"
    by (auto simp: empty_heap_def)
  then have b1: "builder h1 ?k1" by simp
  have a1: "allocated h1 = {1}" using alloc [OF b1] by (auto split: if_splits)
  from step [OF b1, of 2 "Some 1"] a1 obtain h2 where
    "builder h2 (?k1(Some 1 := ?k1 (Some 1) @ [2]))" by auto
  then have b2: "builder h2 ?k2" by simp
  have a2: "allocated h2 = {1, 2}" using alloc [OF b2] by (auto split: if_splits)
  from step [OF b2, of 3 "Some 1"] a2 obtain h3 where
    "builder h3 (?k2(Some 1 := ?k2 (Some 1) @ [3]))" by auto
  then have b3: "builder h3 ((\<lambda>p. [])(None := [1], Some 1 := [2, 3]))" by simp
  have a3: "allocated h3 = {1, 2, 3}" using alloc [OF b3] by (auto split: if_splits)
  have rings: "ring h3 (kids p) \<and> h_prev h3 (hd (kids p)) = Some (last (kids p))"
    if "builder h3 kids" "kids p \<noteq> []" for kids p
    using built_sibling_rings_valid [OF that(1)] that(2) by blast
  from rings [OF b3, of None] have r1: "ring h3 [1]" "h_prev h3 1 = Some 1" by simp_all
  from rings [OF b3, of "Some 1"] have r2: "ring h3 [2, 3]" "h_prev h3 2 = Some 3" by simp_all
  from r2(1) have n2: "h_next h3 2 = Some 3" "h_prev h3 3 = Some 2" by (simp_all add: ring_def)
  from b3 a3 r1 r2 n2 show ?thesis by blast
qed

subsection \<open>The JSON printer\<close>

lemma ocat_Some_Nil [simp]: "ocat e (Some []) = e"
  by (cases e) simp_all

lemma ocat_None [simp]: "ocat e None = None"
  by (cases e) simp_all

lemma ocat_assoc: "ocat (ocat a b) c = ocat a (ocat b c)"
  by (cases a; cases b; cases c) simp_all

lemma join_entries_Cons:
  "join_entries (e # es) = (if es = [] then e else ocat e (ocat (Some ('','' @ NL)) (join_entries es)))"
  by (cases es) simp_all

lemma join_lines_Cons:
  "join_lines (e # es) = (if es = [] then e else e @ '','' @ NL @ join_lines es)"
  by (cases es) simp_all

lemma list_entries_join:
  "ocat e (list_entries level node rest) =
   join_entries (e # map (list_entry level node) (filter (\<lambda>n. schema n = schema node) rest))"
proof (induction rest arbitrary: e)
  case Nil
  show ?case by simp
next
  case (Cons l rest)
  show ?case
  proof (cases "schema l = schema node")
    case False
    with Cons show ?thesis by simp
  next
    case True
    then show ?thesis
      using Cons[of "list_entry level node l"] by (simp add: join_entries_Cons)
  qed
qed

lemma leaflist_values_join:
  "ocat e (fst (leaflist_values level node rest)) =
   join_entries (e # map (leaflist_value level) (filter (\<lambda>n. schema n = schema node) rest))"
proof (induction rest arbitrary: e)
  case Nil
  show ?case by simp
next
  case (Cons l rest)
  show ?case
  proof (cases "schema l = schema node")
    case False
    with Cons show ?thesis by simp
  next
    case True
    then show ?thesis
      using Cons[of "leaflist_value level l"] by (simp add: join_entries_Cons)
  qed
qed

lemma leaflist_flag:
  "snd (leaflist_values level node rest) =
   list_ex (\<lambda>n. attr n \<noteq> []) (filter (\<lambda>n. schema n = schema node) rest)"
  by (induction rest) simp_all

lemma leaflist_attrs_join:
  "e @ leaflist_attrs level node rest =
   join_lines (e # map (leaflist_attr level) (filter (\<lambda>n. schema n = schema node) rest))"
proof (induction rest arbitrary: e)
  case Nil
  show ?case by simp
next
  case (Cons l rest)
  show ?case
  proof (cases "schema l = schema node")
    case False
    with Cons show ?thesis by simp
  next
    case True
    then show ?thesis
      using Cons[of "leaflist_attr level l"] by (simp add: join_lines_Cons)
  qed
qed

lemma already_printed_iff: "already_printed node earlier = (schema node \<in> schema ` set earlier)"
  by (induction earlier) auto

lemma leaflist_attrs_join_app:
  "e @ leaflist_attrs level node rest @ t =
   join_lines (e # map (leaflist_attr level) (filter (\<lambda>n. schema n = schema node) rest)) @ t"
  using leaflist_attrs_join[of e level node rest] by simp

lemma leaf_list_close_attr_array:
  "leaf_list_close level parent node after False =
     NL @ indent level @ '']'' @ attr_array level parent node (instances node after)"
proof -
  have m: "leaflist_attr (level + 1) = (\<lambda>n. if attr n \<noteq> []
                                   then indent (level + 1) @ ''{ '' @ json_print_attrs 0 n
                                        @ indent (level + 1) @ ''}''
                                   else indent (level + 1) @ ''null'')"
    by (rule ext) (simp add: leaflist_attr_def)
  have a: "attr_array level parent node (instances node after) =
     (if list_ex (\<lambda>n. attr n \<noteq> []) (instances node after)
      then '','' @ NL @ indent level @ DQ @ ''@'' @ member_name parent node @ DQ @ '': ['' @ NL
           @ join_lines (map (leaflist_attr (level + 1)) (instances node after))
           @ NL @ indent level @ '']''
      else [])"
    unfolding attr_array_def m ..
  show ?thesis
    unfolding a leaf_list_close_def
    by (simp add: instances_def leaflist_flag leaflist_attrs_join_app del: join_lines.simps)
qed

lemma json_print_leaf_list_list:
  "\<not> child_is_null node \<Longrightarrow>
   json_print_leaf_list level parent node after True =
     ocat (Some (indent level @ DQ @ member_name parent node @ DQ @ '':'' @ '' ['' @ NL))
       (ocat (join_entries (map (list_entry level node) (instances node after)))
          (Some (NL @ indent level @ '']'')))"
  by (simp add: instances_def list_entries_join leaf_list_close_def ocat_assoc [symmetric]
      del: join_entries.simps)

lemma json_print_leaf_list_leaflist:
  "\<not> child_is_null node \<Longrightarrow>
   json_print_leaf_list level parent node after False =
     ocat (Some (indent level @ DQ @ member_name parent node @ DQ @ '':'' @ '' ['' @ NL))
       (ocat (join_entries (map (leaflist_value (level + 1)) (instances node after)))
          (Some (NL @ indent level @ '']'' @ attr_array level parent node (instances node after))))"
  by (simp add: instances_def leaflist_values_join leaf_list_close_attr_array ocat_assoc [symmetric]
      del: join_entries.simps)

lemma json_print_leaf_list_empty:
  "child_is_null node \<Longrightarrow>
   json_print_leaf_list level parent node after is_list =
     Some (indent level @ DQ @ member_name parent node @ DQ @ '':'' @ '' null'')"
  by simp

text \<open>
  C8, against the claim as stated. Two instances of the list \<open>l\<close>, the first without
  children, the second with the leaf \<open>k\<close>: the printer writes the member \<open>m:l\<close> with
  the value \<^verbatim>\<open>null\<close> and no array, and nothing of the second instance.
\<close>

theorem empty_first_instance_hides_list:
  "json_print_nodes 1 None [] [Lyd_node ex_list_l [] [], Lyd_node ex_list_l [] [ex_k ''x'']]
     = Some (indent 1 @ DQ @ ''m:l'' @ DQ @ '': null'' @ NL)"
  by (simp add: json_print_nodes_def comma_def container_open_def list_entry_open_def leaf_list_close_def member_name_def ns_prefix_name_def json_print_attrs_def leaflist_value_def leaflist_attr_def LY_DATA_TYPE_MASK_def nscmp_def indent_def DQ_def NL_def ex_mod_m_def ex_leaflist_x_def ex_leaf_k_def ex_list_l_def ex_k_def ex_attr_def ex_x_def eval_nat_numeral)

text \<open>
  C8, amended. For a node of a list or leaf-list: where its schema node has occurred among
  the earlier siblings, the walk writes nothing for it; where it has not, the walk writes
  at this place what \<^verbatim>\<open>json_print_leaf_list\<close> writes for the node and its later siblings.
  This is, when the first instance is not empty (it has a child, or a value string for a
  leaf-list), one array with one entry for the node and for every later sibling of its
  schema node, in their order; and when the first instance is empty, the member with the
  value \<^verbatim>\<open>null\<close>.
\<close>

theorem list_instances_printed_as_one_array:
  assumes nt: "snodetype (schema node) = LYS_LIST \<or> snodetype (schema node) = LYS_LEAFLIST"
  shows "(schema node \<in> schema ` set earlier \<longrightarrow>
            json_print_nodes_loop level parent earlier (node # after) =
              json_print_nodes_loop level parent (node # earlier) after) \<and>
         (schema node \<notin> schema ` set earlier \<longrightarrow>
            json_print_nodes_loop level parent earlier (node # after) =
              ocat (Some (comma earlier))
                (ocat (json_print_leaf_list level parent node after
                         (snodetype (schema node) = LYS_LIST))
                   (json_print_nodes_loop level parent (node # earlier) after))) \<and>
         (\<not> child_is_null node \<longrightarrow>
            json_print_leaf_list level parent node after (snodetype (schema node) = LYS_LIST) =
              ocat (Some (indent level @ DQ @ member_name parent node @ DQ @ '':'' @ '' ['' @ NL))
                (ocat (join_entries
                         (map (if snodetype (schema node) = LYS_LIST then list_entry level node
                               else leaflist_value (level + 1))
                            (instances node after)))
                   (Some (leaf_list_close level parent node after
                            (snodetype (schema node) = LYS_LIST))))) \<and>
         (child_is_null node \<longrightarrow>
            json_print_leaf_list level parent node after (snodetype (schema node) = LYS_LIST) =
              Some (indent level @ DQ @ member_name parent node @ DQ @ '':'' @ '' null''))"
proof (intro conjI impI)
  assume "schema node \<in> schema ` set earlier"
  then have "already_printed node earlier" by (simp add: already_printed_iff)
  with nt show "json_print_nodes_loop level parent earlier (node # after) =
      json_print_nodes_loop level parent (node # earlier) after"
    by (cases "json_print_nodes_loop level parent (node # earlier) after") auto
next
  assume "schema node \<notin> schema ` set earlier"
  then have "\<not> already_printed node earlier" by (simp add: already_printed_iff)
  with nt show "json_print_nodes_loop level parent earlier (node # after) =
      ocat (Some (comma earlier))
        (ocat (json_print_leaf_list level parent node after (snodetype (schema node) = LYS_LIST))
           (json_print_nodes_loop level parent (node # earlier) after))"
    by (auto simp: ocat_assoc simp del: json_print_leaf_list.simps)
next
  assume ne: "\<not> child_is_null node"
  show "json_print_leaf_list level parent node after (snodetype (schema node) = LYS_LIST) =
      ocat (Some (indent level @ DQ @ member_name parent node @ DQ @ '':'' @ '' ['' @ NL))
        (ocat (join_entries
                 (map (if snodetype (schema node) = LYS_LIST then list_entry level node
                       else leaflist_value (level + 1))
                    (instances node after)))
           (Some (leaf_list_close level parent node after (snodetype (schema node) = LYS_LIST))))"
  proof (cases "snodetype (schema node) = LYS_LIST")
    case True
    with json_print_leaf_list_list[OF ne, of level parent after] show ?thesis
      by (simp add: leaf_list_close_def del: json_print_leaf_list.simps join_entries.simps)
  next
    case False
    with json_print_leaf_list_leaflist[OF ne, of level parent after] show ?thesis
      by (simp add: leaf_list_close_attr_array del: json_print_leaf_list.simps join_entries.simps)
  qed
next
  assume "child_is_null node"
  then show "json_print_leaf_list level parent node after (snodetype (schema node) = LYS_LIST) =
      Some (indent level @ DQ @ member_name parent node @ DQ @ '':'' @ '' null'')"
    by simp
qed

theorem list_instances_printed_as_one_array_witness:
  "snodetype (schema (ex_x [] ''a'')) = LYS_LEAFLIST \<and>
   schema (ex_x [] ''a'') \<notin> schema ` set [] \<and>
   \<not> child_is_null (ex_x [] ''a'') \<and>
   json_print_nodes_loop 1 None [] [ex_x [] ''a'', ex_k ''q'', ex_x [ex_attr ''a'' ''v''] ''b''] =
     ocat (Some (comma []))
       (ocat (json_print_leaf_list 1 None (ex_x [] ''a'')
                [ex_k ''q'', ex_x [ex_attr ''a'' ''v''] ''b''] False)
          (json_print_nodes_loop 1 None [ex_x [] ''a'']
             [ex_k ''q'', ex_x [ex_attr ''a'' ''v''] ''b''])) \<and>
   instances (ex_x [] ''a'') [ex_k ''q'', ex_x [ex_attr ''a'' ''v''] ''b'']
     = [ex_x [] ''a'', ex_x [ex_attr ''a'' ''v''] ''b''] \<and>
   json_print_leaf_list 1 None (ex_x [] ''a'') [ex_k ''q'', ex_x [ex_attr ''a'' ''v''] ''b''] False =
     ocat (Some (indent 1 @ DQ @ member_name None (ex_x [] ''a'') @ DQ @ '':'' @ '' ['' @ NL))
       (ocat (join_entries (map (leaflist_value 2) [ex_x [] ''a'', ex_x [ex_attr ''a'' ''v''] ''b'']))
          (Some (leaf_list_close 1 None (ex_x [] ''a'')
                   [ex_k ''q'', ex_x [ex_attr ''a'' ''v''] ''b''] False))) \<and>
   schema (ex_x [ex_attr ''a'' ''v''] ''b'') \<in> schema ` set [ex_k ''q'', ex_x [] ''a''] \<and>
   json_print_nodes_loop 1 None [ex_k ''q'', ex_x [] ''a''] [ex_x [ex_attr ''a'' ''v''] ''b''] =
     json_print_nodes_loop 1 None [ex_x [ex_attr ''a'' ''v''] ''b'', ex_k ''q'', ex_x [] ''a''] [] \<and>
   snodetype (schema (Lyd_node ex_list_l [] [])) = LYS_LIST \<and>
   child_is_null (Lyd_node ex_list_l [] []) \<and>
   json_print_leaf_list 1 None (Lyd_node ex_list_l [] []) [Lyd_node ex_list_l [] [ex_k ''x'']] True =
     Some (indent 1 @ DQ @ member_name None (Lyd_node ex_list_l [] []) @ DQ @ '':'' @ '' null'')"
proof -
  let ?a = "ex_x [] ''a''" and ?b = "ex_x [ex_attr ''a'' ''v''] ''b''" and ?q = "ex_k ''q''"
  let ?e = "Lyd_node ex_list_l [] []"
  have nt: "snodetype (schema ?a) = LYS_LEAFLIST" "snodetype (schema ?b) = LYS_LEAFLIST"
    "snodetype (schema ?e) = LYS_LIST"
    by (simp_all add: ex_mod_m_def ex_leaflist_x_def ex_leaf_k_def ex_list_l_def ex_k_def ex_attr_def ex_x_def)
  have nl: "(snodetype (schema ?a) = LYS_LIST) = False" by (simp add: ex_mod_m_def ex_leaflist_x_def ex_leaf_k_def ex_list_l_def ex_k_def ex_attr_def ex_x_def)
  have first: "schema ?a \<notin> schema ` set []" by simp
  have ne: "\<not> child_is_null ?a" by (simp add: ex_x_def)
  have inst: "instances ?a [?q, ?b] = [?a, ?b]"
    by (simp add: instances_def ex_mod_m_def ex_leaflist_x_def ex_leaf_k_def ex_list_l_def ex_k_def ex_attr_def ex_x_def)
  have later: "schema ?b \<in> schema ` set [?q, ?a]" by (simp add: ex_x_def)
  have em: "child_is_null ?e" by simp
  note t1 = list_instances_printed_as_one_array [where node = ?a and earlier = "[]" and level = 1
      and parent = None and after = "[?q, ?b]"]
  note t2 = list_instances_printed_as_one_array [where node = ?b and earlier = "[?q, ?a]" and level = 1
      and parent = None and after = "[]"]
  note t3 = list_instances_printed_as_one_array [where node = ?e and earlier = "[]" and level = 1
      and parent = None and after = "[Lyd_node ex_list_l [] [ex_k ''x'']]"]
  have 1: "json_print_nodes_loop 1 None [] [?a, ?q, ?b] =
     ocat (Some (comma []))
       (ocat (json_print_leaf_list 1 None ?a [?q, ?b] False)
          (json_print_nodes_loop 1 None [?a] [?q, ?b]))"
    using t1 nt(1) first nl by (simp del: json_print_nodes_loop.simps json_print_leaf_list.simps)
  have 2: "json_print_leaf_list 1 None ?a [?q, ?b] False =
     ocat (Some (indent 1 @ DQ @ member_name None ?a @ DQ @ '':'' @ '' ['' @ NL))
       (ocat (join_entries (map (leaflist_value 2) [?a, ?b]))
          (Some (leaf_list_close 1 None ?a [?q, ?b] False)))"
    using t1 nt(1) ne nl inst
    by (simp add: numeral_2_eq_2
        del: json_print_nodes_loop.simps json_print_leaf_list.simps join_entries.simps)
  have 3: "json_print_nodes_loop 1 None [?q, ?a] [?b] = json_print_nodes_loop 1 None [?b, ?q, ?a] []"
    using t2 nt(2) later by blast
  have 4: "json_print_leaf_list 1 None ?e [Lyd_node ex_list_l [] [ex_k ''x'']] True =
     Some (indent 1 @ DQ @ member_name None ?e @ DQ @ '':'' @ '' null'')"
    using t3 nt(3) em by (simp del: json_print_nodes_loop.simps json_print_leaf_list.simps)
  from nt(1) first ne 1 inst 2 later 3 nt(3) em 4 show ?thesis by blast
qed

lemma list_entry_at:
  "attr list \<noteq> [] \<Longrightarrow> list_entry level node list = Some t \<Longrightarrow>
   \<exists>rest. t = indent (level + 1) @ ''{'' @ NL @ indent (level + 2) @ DQ @ ''@'' @ DQ @ '': {'' @ NL @ rest"
proof (cases list)
  case (Lyd_node sch at ch)
  assume a: "attr list \<noteq> []" and t: "list_entry level node list = Some t"
  obtain body where b: "json_print_nodes_loop (level + 2) (Some (Lyd_node sch at ch)) [] ch = Some body"
    using t Lyd_node by (cases "json_print_nodes_loop (level + 2) (Some (Lyd_node sch at ch)) [] ch") auto
  from t a Lyd_node b have
    "t = indent (level + 1) @ ''{'' @ NL @ indent (level + 2) @ DQ @ ''@'' @ DQ @ '': {'' @ NL
       @ (json_print_attrs (level + 3) node @ indent (level + 2) @ ''}''
          @ (if ch \<noteq> [] then '','' @ NL else []) @ body @ NL @ indent (level + 1) @ ''}'')"
    by (auto simp: list_entry_open_def)
  then show ?thesis by (rule exI)
qed simp_all

text \<open>
  C9, against the claim as stated. A list instance with the attribute \<open>a\<close>: the
  attribute is printed in the member \<^verbatim>\<open>"@"\<close> inside the entry of the instance, and the
  text ends with the bracket of the instance array; no parallel array follows.
\<close>

theorem list_attributes_inside_entry:
  "json_print_leaf_list 1 None (Lyd_node ex_list_l [ex_attr ''a'' ''v''] [ex_k ''x'']) [] True
     = Some (indent 1 @ DQ @ ''m:l'' @ DQ @ '': ['' @ NL
             @ indent 2 @ ''{'' @ NL
             @ indent 3 @ DQ @ ''@'' @ DQ @ '': {'' @ NL
             @ indent 4 @ DQ @ ''a'' @ DQ @ '':'' @ DQ @ ''v'' @ DQ @ NL
             @ indent 3 @ ''},'' @ NL
             @ indent 3 @ DQ @ ''k'' @ DQ @ '': '' @ DQ @ ''x'' @ DQ @ NL
             @ indent 2 @ ''}'' @ NL
             @ indent 1 @ '']'')"
  by (simp add: json_print_nodes_def comma_def container_open_def list_entry_open_def leaf_list_close_def member_name_def ns_prefix_name_def json_print_attrs_def leaflist_value_def leaflist_attr_def LY_DATA_TYPE_MASK_def nscmp_def indent_def DQ_def NL_def ex_mod_m_def ex_leaflist_x_def ex_leaf_k_def ex_list_l_def ex_k_def ex_attr_def ex_x_def eval_nat_numeral)

text \<open>
  C9, amended. When the first instance is not empty: for a leaf-list the array of the
  values is followed, where some instance has attributes, by a parallel array under the
  member name with \<^verbatim>\<open>@\<close>, which holds for each instance in order an object of its own
  attributes or \<^verbatim>\<open>null\<close>; for a list the text ends with the array of the entries, no
  parallel array follows, and the entry of an instance that has attributes begins with the
  member \<^verbatim>\<open>"@"\<close>.
\<close>

theorem element_attributes_printed:
  "\<not> child_is_null node \<longrightarrow>
     json_print_leaf_list level parent node after False =
       ocat (Some (indent level @ DQ @ member_name parent node @ DQ @ '':'' @ '' ['' @ NL))
         (ocat (join_entries (map (leaflist_value (level + 1)) (instances node after)))
            (Some (NL @ indent level @ '']''
                   @ attr_array level parent node (instances node after)))) \<and>
     json_print_leaf_list level parent node after True =
       ocat (Some (indent level @ DQ @ member_name parent node @ DQ @ '':'' @ '' ['' @ NL))
         (ocat (join_entries (map (list_entry level node) (instances node after)))
            (Some (NL @ indent level @ '']''))) \<and>
     (\<forall>list\<in>set (instances node after). \<forall>t. attr list \<noteq> [] \<and> list_entry level node list = Some t \<longrightarrow>
        (\<exists>rest. t = indent (level + 1) @ ''{'' @ NL @ indent (level + 2) @ DQ @ ''@'' @ DQ
                     @ '': {'' @ NL @ rest))"
  using json_print_leaf_list_leaflist[of node level parent after]
    json_print_leaf_list_list[of node level parent after] list_entry_at
  by blast

theorem element_attributes_printed_witness:
  "\<not> child_is_null (ex_x [] ''a'') \<and>
   json_print_leaf_list 1 None (ex_x [] ''a'') [ex_k ''q'', ex_x [ex_attr ''a'' ''v''] ''b''] False =
     Some (indent 1 @ DQ @ ''m:x'' @ DQ @ '': ['' @ NL
           @ indent 2 @ DQ @ ''a'' @ DQ @ '','' @ NL
           @ indent 2 @ DQ @ ''b'' @ DQ @ NL
           @ indent 1 @ ''],'' @ NL
           @ indent 1 @ DQ @ ''@m:x'' @ DQ @ '': ['' @ NL
           @ indent 2 @ ''null,'' @ NL
           @ indent 2 @ ''{ '' @ DQ @ ''a'' @ DQ @ '':'' @ DQ @ ''v'' @ DQ @ NL
           @ indent 2 @ ''}'' @ NL
           @ indent 1 @ '']'') \<and>
   attr (Lyd_node ex_list_l [ex_attr ''a'' ''v''] [ex_k ''x'']) \<noteq> [] \<and>
   (\<exists>t rest. list_entry 1 (Lyd_node ex_list_l [ex_attr ''a'' ''v''] [ex_k ''x''])
                (Lyd_node ex_list_l [ex_attr ''a'' ''v''] [ex_k ''x'']) = Some t \<and>
      t = indent 2 @ ''{'' @ NL @ indent 3 @ DQ @ ''@'' @ DQ @ '': {'' @ NL @ rest)"
proof -
  let ?a = "ex_x [] ''a''" and ?b = "ex_x [ex_attr ''a'' ''v''] ''b''" and ?q = "ex_k ''q''"
  let ?l = "Lyd_node ex_list_l [ex_attr ''a'' ''v''] [ex_k ''x'']"
  have ne: "\<not> child_is_null ?a" by (simp add: ex_x_def)
  have nl: "\<not> child_is_null ?l" by simp
  have inst: "instances ?a [?q, ?b] = [?a, ?b]"
    by (simp add: instances_def ex_mod_m_def ex_leaflist_x_def ex_leaf_k_def ex_list_l_def ex_k_def ex_attr_def ex_x_def)
  have at: "attr ?l \<noteq> []" by simp
  from element_attributes_printed [of ?a 1 None "[?q, ?b]"] ne
  have "json_print_leaf_list 1 None ?a [?q, ?b] False =
       ocat (Some (indent 1 @ DQ @ member_name None ?a @ DQ @ '':'' @ '' ['' @ NL))
         (ocat (join_entries (map (leaflist_value (1 + 1)) (instances ?a [?q, ?b])))
            (Some (NL @ indent 1 @ '']'' @ attr_array 1 None ?a (instances ?a [?q, ?b]))))"
    by blast
  then have 1: "json_print_leaf_list 1 None ?a [?q, ?b] False =
     Some (indent 1 @ DQ @ ''m:x'' @ DQ @ '': ['' @ NL
           @ indent 2 @ DQ @ ''a'' @ DQ @ '','' @ NL
           @ indent 2 @ DQ @ ''b'' @ DQ @ NL
           @ indent 1 @ ''],'' @ NL
           @ indent 1 @ DQ @ ''@m:x'' @ DQ @ '': ['' @ NL
           @ indent 2 @ ''null,'' @ NL
           @ indent 2 @ ''{ '' @ DQ @ ''a'' @ DQ @ '':'' @ DQ @ ''v'' @ DQ @ NL
           @ indent 2 @ ''}'' @ NL
           @ indent 1 @ '']'')"
    unfolding inst
    by (simp add: attr_array_def json_print_nodes_def comma_def container_open_def list_entry_open_def leaf_list_close_def member_name_def ns_prefix_name_def json_print_attrs_def leaflist_value_def leaflist_attr_def LY_DATA_TYPE_MASK_def nscmp_def indent_def DQ_def NL_def ex_mod_m_def ex_leaflist_x_def ex_leaf_k_def ex_list_l_def ex_k_def ex_attr_def ex_x_def eval_nat_numeral
        del: json_print_leaf_list.simps)
  obtain t where t: "list_entry 1 ?l ?l = Some t"
    by (simp add: json_print_nodes_def comma_def container_open_def list_entry_open_def leaf_list_close_def member_name_def ns_prefix_name_def json_print_attrs_def leaflist_value_def leaflist_attr_def LY_DATA_TYPE_MASK_def nscmp_def indent_def DQ_def NL_def ex_mod_m_def ex_leaflist_x_def ex_leaf_k_def ex_list_l_def ex_k_def ex_attr_def ex_x_def eval_nat_numeral)
  have mem: "?l \<in> set (instances ?l [])" by (simp add: instances_def)
  from element_attributes_printed [of ?l 1 None "[]"] nl mem at t
  have "\<exists>rest. t = indent (1 + 1) @ ''{'' @ NL @ indent (1 + 2) @ DQ @ ''@'' @ DQ @ '': {'' @ NL @ rest"
    by blast
  then have 2: "\<exists>rest. t = indent 2 @ ''{'' @ NL @ indent 3 @ DQ @ ''@'' @ DQ @ '': {'' @ NL @ rest"
    by (simp add: numeral_2_eq_2 numeral_3_eq_3)
  from ne 1 at t 2 show ?thesis by blast
qed

end
